theory Spec2Isabelle
  imports Main
begin

text \<open>
  The listener, the aggregator and the account assigner of the monitor, as state
  transformers. Every object is a record of its fields, a method takes the object and
  returns it updated, and what an awaited external call answered (a session, the link
  extraction, the reply generator, the platform client, the clock) is an argument of the
  method.
\<close>

section \<open>Shared data\<close>

text \<open>
  A discovered tweet as built by \<open>GroupMessageListener.processTweetLinks\<close>: the object
  \<open>{id, url, username, tweetPath, discoveredAt, source}\<close>. Timestamps are milliseconds
  since the epoch (the reading of \<open>new Date()\<close>), passed in by the caller.
\<close>

record tweetInfo =
  tweetId :: string
  url :: string
  username :: string
  tweetPath :: string
  discoveredAt :: nat
  source :: string

section \<open>AccountAssigner (the dispatcher)\<close>

subsection \<open>State\<close>

datatype account_status = Active | Error

text \<open>
  One entry of \<open>activeAccounts\<close>. The fields \<open>auth\<close> and \<open>config\<close> are handles of the
  external session layer and are left out. \<open>workload\<close> is a JavaScript number that the
  code increments and decrements, so it is an \<open>int\<close>; \<open>lastUsed\<close> is \<open>null\<close> or a
  timestamp.
\<close>

record account =
  status :: account_status
  lastUsed :: "nat option"
  tasksAssigned :: nat
  repliesSent :: nat
  errors :: nat
  workload :: int

record accountStat =
  statTasksAssigned :: nat
  statRepliesSent :: nat
  statErrors :: nat
  statStatus :: account_status

record task =
  taskTweet :: tweetInfo
  accountId :: string
  createdAt :: nat
  retryCount :: nat

datatype assigner_event =
    AccountsInitialized nat
  | ReplySuccess string string string string
  | TaskFailed task string
  | AccountError string nat

text \<open>
  The assigner object. \<open>activeAccounts\<close> is a JavaScript \<open>Map\<close>, which iterates in insertion
  order: an association list. \<open>retry_attempts\<close> is \<open>settings.monitoring?.retry_attempts\<close>
  (\<open>None\<close> when unset). \<open>emitted\<close> collects the events passed to \<open>this.emit\<close>, oldest
  first.
\<close>

record assigner =
  activeAccounts :: "(string \<times> account) list"
  taskQueue :: "task list"
  processingQueue :: bool
  totalAssignments :: nat
  totalRepliesSent :: nat
  totalErrors :: nat
  accountStats :: "(string \<times> accountStat) list"
  retry_attempts :: "int option"
  emitted :: "assigner_event list"

definition newAssigner :: "int option \<Rightarrow> assigner" where
  "newAssigner ra =
     \<lparr>activeAccounts = [], taskQueue = [], processingQueue = False,
      totalAssignments = 0, totalRepliesSent = 0, totalErrors = 0,
      accountStats = [], retry_attempts = ra, emitted = []\<rparr>"

subsection \<open>Map operations\<close>

text \<open>\<open>Map.prototype.set\<close>: replace the value of an existing key in place, else append.\<close>

fun mapSet :: "'k \<Rightarrow> 'v \<Rightarrow> ('k \<times> 'v) list \<Rightarrow> ('k \<times> 'v) list" where
  "mapSet k v [] = [(k, v)]"
| "mapSet k v ((k', v') # m) = (if k' = k then (k, v) # m else (k', v') # mapSet k v m)"

text \<open>Mutation of the object stored under a key; nothing happens when the key is absent.\<close>

fun mapModify :: "'k \<Rightarrow> ('v \<Rightarrow> 'v) \<Rightarrow> ('k \<times> 'v) list \<Rightarrow> ('k \<times> 'v) list" where
  "mapModify k f [] = []"
| "mapModify k f ((k', v') # m) =
     (if k' = k then (k', f v') # m else (k', v') # mapModify k f m)"

definition modifyAccount :: "string \<Rightarrow> (account \<Rightarrow> account) \<Rightarrow> assigner \<Rightarrow> assigner" where
  "modifyAccount aid f s = s\<lparr>activeAccounts := mapModify aid f (activeAccounts s)\<rparr>"

definition modifyStat :: "string \<Rightarrow> (accountStat \<Rightarrow> accountStat) \<Rightarrow> assigner \<Rightarrow> assigner" where
  "modifyStat aid f s = s\<lparr>accountStats := mapModify aid f (accountStats s)\<rparr>"

definition emit :: "assigner_event \<Rightarrow> assigner \<Rightarrow> assigner" where
  "emit e s = s\<lparr>emitted := emitted s @ [e]\<rparr>"

subsection \<open>selectBestAccount\<close>

text \<open>
  The comparator handed to \<open>Array.prototype.sort\<close>: workload first, then the time of last
  use, where \<open>null\<close> counts as 0.
\<close>

definition lastUsedTime :: "account \<Rightarrow> int" where
  "lastUsedTime a = (case lastUsed a of None \<Rightarrow> 0 | Some t \<Rightarrow> int t)"

definition compareAccounts :: "string \<times> account \<Rightarrow> string \<times> account \<Rightarrow> int" where
  "compareAccounts a b =
     (if workload (snd a) \<noteq> workload (snd b) then workload (snd a) - workload (snd b)
      else lastUsedTime (snd a) - lastUsedTime (snd b))"

text \<open>
  \<open>Array.prototype.sort\<close> with a comparator is a stable sort: an insertion sort that puts
  an element in front of the first one it does not compare greater than.
\<close>

fun insertBy :: "('a \<Rightarrow> 'a \<Rightarrow> int) \<Rightarrow> 'a \<Rightarrow> 'a list \<Rightarrow> 'a list" where
  "insertBy cmp x [] = [x]"
| "insertBy cmp x (y # ys) = (if cmp x y \<le> 0 then x # y # ys else y # insertBy cmp x ys)"

definition sortBy :: "('a \<Rightarrow> 'a \<Rightarrow> int) \<Rightarrow> 'a list \<Rightarrow> 'a list" where
  "sortBy cmp xs = foldr (insertBy cmp) xs []"

definition availableAccounts :: "assigner \<Rightarrow> (string \<times> account) list" where
  "availableAccounts s = filter (\<lambda>(i, a). status a = Active) (activeAccounts s)"

definition selectBestAccount :: "assigner \<Rightarrow> (string \<times> account) option" where
  "selectBestAccount s =
     (case sortBy compareAccounts (availableAccounts s) of
        [] \<Rightarrow> None
      | best # _ \<Rightarrow> Some best)"

subsection \<open>initialize\<close>

text \<open>
  \<open>initialize\<close> starts one session per configured account, concurrently. The argument
  lists the accounts in the order their sessions settle, each with what
  \<open>auth.initialize()\<close> did: returned true, returned false, or threw.
\<close>

datatype session_result = SessionOk | SessionRefused | SessionThrew string

definition freshAccount :: account where
  "freshAccount = \<lparr>status = Active, lastUsed = None, tasksAssigned = 0, repliesSent = 0,
                    errors = 0, workload = 0\<rparr>"

definition freshStat :: accountStat where
  "freshStat = \<lparr>statTasksAssigned = 0, statRepliesSent = 0, statErrors = 0,
                 statStatus = Active\<rparr>"

fun initAccount :: "string \<times> session_result \<Rightarrow> assigner \<Rightarrow> assigner" where
  "initAccount (aid, SessionOk) s =
     s\<lparr>activeAccounts := mapSet aid freshAccount (activeAccounts s),
       accountStats := mapSet aid freshStat (accountStats s)\<rparr>"
| "initAccount (aid, SessionRefused) s = s"
| "initAccount (aid, SessionThrew msg) s = s"

definition initialize :: "(string \<times> session_result) list \<Rightarrow> assigner \<Rightarrow> assigner" where
  "initialize settled s =
     (let s' = fold initAccount settled s
      in emit (AccountsInitialized (length (activeAccounts s'))) s')"

subsection \<open>assignTweets\<close>

text \<open>
  The body of the loop over the tweets, and the loop. \<open>assignTweets\<close> ends by calling
  \<open>processTaskQueue\<close>; the turns of that loop are the operation \<open>processNext\<close> below.
\<close>

definition assignOne :: "nat \<Rightarrow> tweetInfo \<Rightarrow> assigner \<Rightarrow> assigner" where
  "assignOne now tweet s =
     (case selectBestAccount s of
        Some (aid, _) \<Rightarrow>
          modifyStat aid (\<lambda>st. st\<lparr>statTasksAssigned := statTasksAssigned st + 1\<rparr>)
            (modifyAccount aid
               (\<lambda>a. a\<lparr>tasksAssigned := tasksAssigned a + 1, workload := workload a + 1\<rparr>)
               (s\<lparr>taskQueue := taskQueue s @
                      [\<lparr>taskTweet = tweet, accountId = aid, createdAt = now, retryCount = 0\<rparr>],
                   totalAssignments := totalAssignments s + 1\<rparr>))
      | None \<Rightarrow> s)"

definition assignTweets :: "nat \<Rightarrow> tweetInfo list \<Rightarrow> assigner \<Rightarrow> assigner" where
  "assignTweets now tweets s = fold (assignOne now) tweets s"

subsection \<open>decreaseWorkload and handleTaskError\<close>

definition decreaseWorkload :: "string \<Rightarrow> assigner \<Rightarrow> assigner" where
  "decreaseWorkload aid s =
     modifyAccount aid (\<lambda>a. if workload a > 0 then a\<lparr>workload := workload a - 1\<rparr> else a) s"

text \<open>\<open>this.settings.monitoring?.retry_attempts || 3\<close>: unset and 0 both give 3.\<close>

definition maxRetries :: "assigner \<Rightarrow> int" where
  "maxRetries s = (case retry_attempts s of None \<Rightarrow> 3 | Some n \<Rightarrow> if n = 0 then 3 else n)"

text \<open>The first block of \<open>handleTaskError\<close>: charge the error to the account of the task.\<close>

definition chargeError :: "string \<Rightarrow> assigner \<Rightarrow> assigner" where
  "chargeError aid s =
     (case map_of (activeAccounts s) aid of
        Some _ \<Rightarrow>
          decreaseWorkload aid
            (modifyStat aid (\<lambda>st. st\<lparr>statErrors := statErrors st + 1\<rparr>)
               (modifyAccount aid (\<lambda>a. a\<lparr>errors := errors a + 1\<rparr>) s))
      | None \<Rightarrow> s)"

text \<open>The retry block: the task object is mutated, so the task the caller holds changes too.\<close>

definition retryOrFail :: "task \<Rightarrow> string \<Rightarrow> assigner \<Rightarrow> assigner" where
  "retryOrFail task errorMessage s =
     (let task' = task\<lparr>retryCount := retryCount task + 1\<rparr>
      in if int (retryCount task') < maxRetries s then
           (case selectBestAccount s of
              Some (nid, _) \<Rightarrow>
                if nid \<noteq> accountId task then
                  (modifyAccount nid (\<lambda>a. a\<lparr>workload := workload a + 1\<rparr>) s)
                    \<lparr>taskQueue := taskQueue s @ [task'\<lparr>accountId := nid\<rparr>]\<rparr>
                else s
            | None \<Rightarrow> s)
         else emit (TaskFailed task' errorMessage) s)"

text \<open>The last block: an account with five or more errors is marked as faulty.\<close>

definition demote :: "string \<Rightarrow> assigner \<Rightarrow> assigner" where
  "demote aid s =
     (case map_of (activeAccounts s) aid of
        Some a \<Rightarrow>
          if errors a \<ge> 5 then
            emit (AccountError aid (errors a))
              (modifyStat aid (\<lambda>st. st\<lparr>statStatus := Error\<rparr>)
                 (modifyAccount aid (\<lambda>a. a\<lparr>status := Error\<rparr>) s))
          else s
      | None \<Rightarrow> s)"

definition handleTaskError :: "task \<Rightarrow> string \<Rightarrow> assigner \<Rightarrow> assigner" where
  "handleTaskError task errorMessage s =
     demote (accountId task)
       (retryOrFail task errorMessage
          ((chargeError (accountId task) s)\<lparr>totalErrors := totalErrors s + 1\<rparr>))"

subsection \<open>processTask and the queue\<close>

text \<open>
  What the external calls of one \<open>processTask\<close> did: some awaited call threw; the tweet
  was declined by \<open>shouldProcessTweet\<close>; the reply generator answered without success;
  \<open>postTweet\<close> returned a falsy value; or the reply was posted (reply text, reply id).
\<close>

datatype outcome =
    Threw string
  | Declined
  | AiFailed string
  | PostFalsy
  | Posted string string

text \<open>The end of the \<open>try\<close> block: \<open>account.lastUsed\<close> is set and the workload decreased.\<close>

definition touch :: "nat \<Rightarrow> string \<Rightarrow> assigner \<Rightarrow> assigner" where
  "touch now aid s = decreaseWorkload aid (modifyAccount aid (\<lambda>a. a\<lparr>lastUsed := Some now\<rparr>) s)"

definition processTask :: "nat \<Rightarrow> outcome \<Rightarrow> task \<Rightarrow> assigner \<Rightarrow> assigner" where
  "processTask now out task s =
     (case map_of (activeAccounts s) (accountId task) of
        None \<Rightarrow> s
      | Some a \<Rightarrow>
          if status a \<noteq> Active then s
          else (case out of
                  Threw msg \<Rightarrow> handleTaskError task msg s
                | Declined \<Rightarrow> decreaseWorkload (accountId task) s
                | AiFailed err \<Rightarrow> touch now (accountId task) (handleTaskError task err s)
                | PostFalsy \<Rightarrow> touch now (accountId task) s
                | Posted reply rid \<Rightarrow>
                    touch now (accountId task)
                      (emit (ReplySuccess (accountId task) (tweetId (taskTweet task)) reply rid)
                         (modifyStat (accountId task)
                            (\<lambda>st. st\<lparr>statRepliesSent := statRepliesSent st + 1\<rparr>)
                            (modifyAccount (accountId task)
                               (\<lambda>a. a\<lparr>repliesSent := repliesSent a + 1\<rparr>)
                               (s\<lparr>totalRepliesSent := totalRepliesSent s + 1\<rparr>))))))"

text \<open>
  One turn of the loop of \<open>processTaskQueue\<close>: \<open>shift\<close> the head and process it. The
  loop runs one task at a time, with \<open>processingQueue\<close> set, and clears the flag when it
  finds the queue empty.
\<close>

definition processNext :: "nat \<Rightarrow> outcome \<Rightarrow> assigner \<Rightarrow> assigner" where
  "processNext now out s =
     (case taskQueue s of
        [] \<Rightarrow> s\<lparr>processingQueue := False\<rparr>
      | task # rest \<Rightarrow> processTask now out task (s\<lparr>taskQueue := rest, processingQueue := True\<rparr>))"

subsection \<open>resetStats and cleanup\<close>

definition resetStats :: "assigner \<Rightarrow> assigner" where
  "resetStats s =
     s\<lparr>totalAssignments := 0, totalRepliesSent := 0, totalErrors := 0,
       activeAccounts :=
         map (\<lambda>(i, a). (i, a\<lparr>tasksAssigned := 0, repliesSent := 0, errors := 0\<rparr>))
           (activeAccounts s),
       accountStats :=
         fold (\<lambda>(i, a). mapSet i (freshStat\<lparr>statStatus := status a\<rparr>)) (activeAccounts s) []\<rparr>"

definition cleanup :: "assigner \<Rightarrow> assigner" where
  "cleanup s = s\<lparr>activeAccounts := [], taskQueue := [], processingQueue := False\<rparr>"

subsection \<open>Runs\<close>

text \<open>
  The operations a caller or the event loop can run on the assigner. Each runs to its end
  before the next starts; the answers of the external services are part of the operation.
  A batch that arrives while a task awaits a service finds the accounts as they were
  when the turn began and is appended behind the queue, so it is the same as a batch
  assigned just before that turn.
\<close>

datatype operation =
    Initialize "(string \<times> session_result) list"
  | AssignTweets nat "tweetInfo list"
  | ProcessNext nat outcome
  | ResetStats
  | Cleanup

fun step :: "operation \<Rightarrow> assigner \<Rightarrow> assigner" where
  "step (Initialize settled) s = initialize settled s"
| "step (AssignTweets now tweets) s = assignTweets now tweets s"
| "step (ProcessNext now out) s = processNext now out s"
| "step ResetStats s = resetStats s"
| "step Cleanup s = cleanup s"

definition run :: "operation list \<Rightarrow> assigner \<Rightarrow> assigner" where
  "run ops s = fold step ops s"

section \<open>GroupMessageListener (a source listener)\<close>

text \<open>
  One entry of \<open>tweetLinks\<close>, as the link extraction returns it, and the listener object
  with the fields a poll cycle reads and writes. \<open>processedTweets\<close> is a JavaScript
  \<open>Set\<close>, which keeps insertion order: a list without duplicates. \<open>published\<close> collects
  the events passed to \<open>this.emit\<close>, \<open>savedFiles\<close> the arrays that
  \<open>saveProcessedTweets\<close> writes to the file (it reads the set when it is called).
  The answer of \<open>getGroupNotifications\<close> is a parameter of the cycle: the notifications
  with their \<open>tweetLinks\<close> (possibly missing), or a throw, with whether the message names
  an authentication failure and what \<open>reconnect\<close> then did. Starting and stopping the
  listener, and loading the file, are outside the poll cycle and are not part of this
  section.
\<close>

record link =
  statusId :: string
  fullUrl :: string
  linkUsername :: string
  linkTweetPath :: string

datatype listener_event =
    NewTweetsFound "tweetInfo list"
  | MessageCheckCompleted nat nat
  | MessageCheckError string
  | AuthRecovered
  | AuthFailed

record listener =
  isListening :: bool
  authPresent :: bool
  processedTweets :: "string list"
  totalMessages :: nat
  tweetsFound :: nat
  lastCheck :: "nat option"
  checkErrors :: nat
  published :: "listener_event list"
  savedFiles :: "string list list"

definition publish :: "listener_event \<Rightarrow> listener \<Rightarrow> listener" where
  "publish e L = L\<lparr>published := published L @ [e]\<rparr>"

definition saveProcessedTweets :: "listener \<Rightarrow> listener" where
  "saveProcessedTweets L = L\<lparr>savedFiles := savedFiles L @ [processedTweets L]\<rparr>"

definition discovered :: "nat \<Rightarrow> link \<Rightarrow> tweetInfo" where
  "discovered now l =
     \<lparr>tweetId = statusId l, url = fullUrl l, username = linkUsername l,
      tweetPath = linkTweetPath l, discoveredAt = now, source = ''group_message''\<rparr>"

text \<open>
  The body of the loop of \<open>processTweetLinks\<close>, on the listener, \<open>newTweets\<close> and
  \<open>hasNewTweets\<close>.
\<close>

fun scanLink :: "nat \<Rightarrow> link \<Rightarrow> listener \<times> tweetInfo list \<times> bool \<Rightarrow> listener \<times> tweetInfo list \<times> bool" where
  "scanLink now l (L, newTweets, hasNewTweets) =
     (if statusId l \<notin> set (processedTweets L) then
        (L\<lparr>processedTweets := processedTweets L @ [statusId l], tweetsFound := tweetsFound L + 1\<rparr>,
         newTweets @ [discovered now l], True)
      else (L, newTweets, hasNewTweets))"

text \<open>The last block of \<open>processTweetLinks\<close>: the set is cut when it holds more than 1000 ids.\<close>

definition trimProcessed :: "bool \<Rightarrow> listener \<Rightarrow> listener" where
  "trimProcessed hasNewTweets L =
     (if length (processedTweets L) > 1000 then
        (let tweetsArray = processedTweets L;
             L' = L\<lparr>processedTweets := drop (length tweetsArray - 800) tweetsArray\<rparr>
         in if hasNewTweets then saveProcessedTweets L' else L')
      else L)"

definition processTweetLinks :: "nat \<Rightarrow> link list \<Rightarrow> listener \<Rightarrow> listener" where
  "processTweetLinks now tweetLinks L =
     (case fold (scanLink now) tweetLinks (L, [], False) of
        (L1, newTweets, hasNewTweets) \<Rightarrow>
          trimProcessed hasNewTweets
            (if length newTweets > 0
             then publish (NewTweetsFound newTweets) (saveProcessedTweets L1)
             else L1))"

datatype reconnect_result = Reconnected | ReconnectRefused | ReconnectThrew string

datatype poll_result =
    Notifications "link list option"
  | PollFailed string bool reconnect_result

definition handleAuthError :: "reconnect_result \<Rightarrow> listener \<Rightarrow> listener" where
  "handleAuthError r L =
     (if authPresent L then
        (case r of Reconnected \<Rightarrow> publish AuthRecovered L
                 | ReconnectRefused \<Rightarrow> publish AuthFailed L
                 | ReconnectThrew msg \<Rightarrow> publish AuthFailed L)
      else L)"

definition checkGroupMessages :: "nat \<Rightarrow> poll_result \<Rightarrow> listener \<Rightarrow> listener" where
  "checkGroupMessages now result L =
     (if \<not> isListening L \<or> \<not> authPresent L then L
      else
        (let L1 = L\<lparr>lastCheck := Some now\<rparr>
         in case result of
              Notifications tweetLinks \<Rightarrow>
                (let L2 = L1\<lparr>totalMessages := totalMessages L1 + 1\<rparr>;
                     L3 = (case tweetLinks of
                             Some ls \<Rightarrow> if length ls > 0 then processTweetLinks now ls L2 else L2
                           | None \<Rightarrow> L2)
                 in publish (MessageCheckCompleted now
                               (case tweetLinks of Some ls \<Rightarrow> length ls | None \<Rightarrow> 0)) L3)
            | PollFailed msg isAuthError r \<Rightarrow>
                (let L2 = publish (MessageCheckError msg) (L1\<lparr>checkErrors := checkErrors L1 + 1\<rparr>)
                 in if isAuthError then handleAuthError r L2 else L2)))"

text \<open>Poll cycles run one after the other, each with its clock reading and its answer.\<close>

definition pollCycles :: "(nat \<times> poll_result) list \<Rightarrow> listener \<Rightarrow> listener" where
  "pollCycles cycles L = fold (\<lambda>(now, result). checkGroupMessages now result) cycles L"

text \<open>The payloads of the \<open>newTweetsFound\<close> events, and the ids they carry, oldest first.\<close>

fun foundBatch :: "listener_event \<Rightarrow> tweetInfo list list" where
  "foundBatch (NewTweetsFound tweets) = [tweets]"
| "foundBatch _ = []"

definition foundBatches :: "listener \<Rightarrow> tweetInfo list list" where
  "foundBatches L = concat (map foundBatch (published L))"

definition emittedIds :: "listener \<Rightarrow> string list" where
  "emittedIds L = map tweetId (concat (foundBatches L))"

text \<open>The ids an extraction result contains.\<close>

fun extractedIds :: "nat \<times> poll_result \<Rightarrow> string list" where
  "extractedIds (now, Notifications (Some ls)) = map statusId ls"
| "extractedIds (now, _) = []"

text \<open>The cut of an oversized set: \<open>Array.from(set).slice(-800)\<close> when the size exceeds 1000.\<close>

definition trimmed :: "string list \<Rightarrow> string list" where
  "trimmed xs = (if length xs > 1000 then drop (length xs - 800) xs else xs)"

section \<open>MultiGroupListener (the aggregator)\<close>

text \<open>
  The aggregator object: the config list, the registry \<open>groupListeners\<close> (a \<open>Map\<close>), the
  statistics and the events it emits (\<open>relayed\<close>). Of a registered listener only whether
  it is listening matters here. \<open>listener.stop()\<close> and \<open>listener.start()\<close> are calls into
  the listener whose outcome is a parameter: \<open>stop\<close> catches its own errors, so it never
  throws; when it completes and the listener was listening, the aggregator hears
  \<open>listenerStopped\<close>, marks the statistics entry as stopped and emits \<open>groupStopped\<close>.
  The events a listener emits while \<open>start\<close> runs its first check also reach the handlers
  of the aggregator; what those handlers do is not part of \<open>initializeGroupListener\<close>
  here, which records only how \<open>start\<close> ended. The results below are about an id that
  is not in the registry, for which no listener is stopped or started.
  Each operation returns the error thrown to the caller, if any, and the state after it.
\<close>

record groupConfig =
  groupId :: string
  groupName :: "string option"
  priority :: "nat option"
  groupEnabled :: bool

datatype group_status = GroupActive | GroupFailed | GroupAuthFailed | GroupStopped

record groupData =
  gdConfig :: groupConfig
  gdStatus :: group_status
  gdStartTime :: nat
  gdListening :: bool

record groupStat =
  gsGroupName :: string
  gsTweetsFound :: nat
  gsErrors :: nat
  gsLastCheck :: "nat option"
  gsStatus :: group_status
  gsPriority :: nat
  gsError :: "string option"

datatype multi_event =
    GroupStoppedEvent string string
  | GroupInitError string "string option" string
  | GroupRestarted string
  | GroupRemoved string

datatype aggregator_error = NotFound string

record multi =
  groupConfigs :: "groupConfig list"
  groupListeners :: "(string \<times> groupData) list"
  isRunning :: bool
  totalGroups :: nat
  activeGroups :: nat
  totalTweetsFound :: nat
  totalGroupErrors :: nat
  groupStats :: "(string \<times> groupStat) list"
  startTime :: "nat option"
  relayed :: "multi_event list"

definition mapDelete :: "'k \<Rightarrow> ('k \<times> 'v) list \<Rightarrow> ('k \<times> 'v) list" where
  "mapDelete k m = filter (\<lambda>(k', v). k' \<noteq> k) m"

definition relay :: "multi_event \<Rightarrow> multi \<Rightarrow> multi" where
  "relay e s = s\<lparr>relayed := relayed s @ [e]\<rparr>"

definition displayName :: "groupConfig \<Rightarrow> string" where
  "displayName c = (case groupName c of None \<Rightarrow> groupId c | Some n \<Rightarrow> if n = [] then groupId c else n)"

definition effectivePriority :: "groupConfig \<Rightarrow> nat" where
  "effectivePriority c = (case priority c of None \<Rightarrow> 999 | Some p \<Rightarrow> if p = 0 then 999 else p)"

datatype stop_result = StopDone | StopThrew string

definition stopListener :: "stop_result \<Rightarrow> string \<Rightarrow> groupData \<Rightarrow> multi \<Rightarrow> multi" where
  "stopListener r gid gd s =
     (if \<not> gdListening gd then s
      else
        (let s1 = s\<lparr>groupListeners := mapModify gid (\<lambda>d. d\<lparr>gdListening := False\<rparr>) (groupListeners s)\<rparr>
         in case r of
              StopThrew msg \<Rightarrow> s1
            | StopDone \<Rightarrow>
                (case map_of (groupStats s1) gid of
                   None \<Rightarrow> s1
                 | Some _ \<Rightarrow>
                     relay (GroupStoppedEvent gid (displayName (gdConfig gd)))
                       (s1\<lparr>groupStats := mapModify gid (\<lambda>st. st\<lparr>gsStatus := GroupStopped\<rparr>) (groupStats s1)\<rparr>))))"

datatype start_result = StartDone | StartThrew string

definition initializeGroupListener :: "nat \<Rightarrow> start_result \<Rightarrow> groupConfig \<Rightarrow> multi \<Rightarrow> multi" where
  "initializeGroupListener now r c s =
     (case r of
        StartDone \<Rightarrow>
          s\<lparr>groupListeners :=
              mapSet (groupId c)
                \<lparr>gdConfig = c, gdStatus = GroupActive, gdStartTime = now, gdListening = True\<rparr>
                (groupListeners s),
            groupStats :=
              mapSet (groupId c)
                \<lparr>gsGroupName = displayName c, gsTweetsFound = 0, gsErrors = 0, gsLastCheck = None,
                 gsStatus = GroupActive, gsPriority = effectivePriority c, gsError = None\<rparr>
                (groupStats s)\<rparr>
      | StartThrew msg \<Rightarrow>
          relay (GroupInitError (groupId c) (groupName c) msg)
            (s\<lparr>groupStats :=
                 mapSet (groupId c)
                   \<lparr>gsGroupName = displayName c, gsTweetsFound = 0, gsErrors = 1, gsLastCheck = None,
                    gsStatus = GroupFailed, gsPriority = effectivePriority c, gsError = Some msg\<rparr>
                   (groupStats s)\<rparr>))"

definition restartGroup ::
  "nat \<Rightarrow> stop_result \<Rightarrow> start_result \<Rightarrow> string \<Rightarrow> multi \<Rightarrow> aggregator_error option \<times> multi" where
  "restartGroup now stopped started gid s =
     (case map_of (groupListeners s) gid of
        None \<Rightarrow> (Some (NotFound gid), s)
      | Some gd \<Rightarrow>
          (None,
           relay (GroupRestarted gid)
             (initializeGroupListener now started (gdConfig gd) (stopListener stopped gid gd s))))"

definition removeGroup :: "stop_result \<Rightarrow> string \<Rightarrow> multi \<Rightarrow> aggregator_error option \<times> multi" where
  "removeGroup stopped gid s =
     (let s1 = (case map_of (groupListeners s) gid of
                  Some gd \<Rightarrow>
                    (let s' = stopListener stopped gid gd s
                     in s'\<lparr>groupListeners := mapDelete gid (groupListeners s')\<rparr>)
                | None \<Rightarrow> s);
          s2 = s1\<lparr>groupConfigs := filter (\<lambda>c. groupId c \<noteq> gid) (groupConfigs s1)\<rparr>;
          s3 = s2\<lparr>groupStats := mapDelete gid (groupStats s2)\<rparr>;
          s4 = s3\<lparr>totalGroups := length (groupConfigs s3),
                  activeGroups := length (groupListeners s3)\<rparr>
      in (None, relay (GroupRemoved gid) s4))"

definition sampleGroup :: "string \<Rightarrow> bool \<Rightarrow> groupConfig" where
  "sampleGroup gid en = \<lparr>groupId = gid, groupName = Some (''group '' @ gid), priority = Some 1, groupEnabled = en\<rparr>"

definition newMulti :: "groupConfig list \<Rightarrow> multi" where
  "newMulti cfgs =
     \<lparr>groupConfigs = cfgs, groupListeners = [], isRunning = False, totalGroups = 0,
      activeGroups = 0, totalTweetsFound = 0, totalGroupErrors = 0, groupStats = [],
      startTime = None, relayed = []\<rparr>"

definition runningMulti :: multi where
  "runningMulti =
     initializeGroupListener 5 StartDone (sampleGroup ''g1'' True)
       ((newMulti [sampleGroup ''g1'' True, sampleGroup ''g2'' False])
          \<lparr>isRunning := True, startTime := Some 5, totalGroups := 2\<rparr>)
       \<lparr>activeGroups := 1\<rparr>"

section \<open>Fixtures and predicates\<close>

subsection \<open>Fixtures for concrete runs\<close>

definition worker :: "int \<Rightarrow> nat option \<Rightarrow> account" where
  "worker w lu = freshAccount\<lparr>lastUsed := lu, workload := w\<rparr>"

definition pool :: "(string \<times> account) list \<Rightarrow> assigner" where
  "pool accts =
     (newAssigner None)\<lparr>activeAccounts := accts,
                        accountStats := map (\<lambda>(i, a). (i, freshStat)) accts\<rparr>"

definition sampleTweet :: "string \<Rightarrow> tweetInfo" where
  "sampleTweet i =
     \<lparr>tweetId = i, url = ''https://x.com/u/status/'' @ i, username = ''u'',
      tweetPath = ''/u/status/'' @ i, discoveredAt = 0, source = ''group_message''\<rparr>"


text \<open>Two accounts, four tweets in one batch, and what the external services answered.\<close>

definition busyRun :: "operation list" where
  "busyRun =
     [Initialize [(''a'', SessionOk), (''b'', SessionOk)],
      AssignTweets 1
        [sampleTweet ''1001'', sampleTweet ''1002'', sampleTweet ''1003'', sampleTweet ''1004''],
      ProcessNext 2 (Threw ''boom''),
      ProcessNext 3 (Threw ''boom''),
      ProcessNext 4 (Posted ''hello'' ''r1''),
      ProcessNext 5 (Threw ''boom''),
      ProcessNext 6 (Threw ''boom'')]"



text \<open>A listener that is listening, with a given set of ids already seen.\<close>

definition listeningListener :: "string list \<Rightarrow> listener" where
  "listeningListener seen =
     \<lparr>isListening = True, authPresent = True, processedTweets = seen, totalMessages = 0,
      tweetsFound = 0, lastCheck = None, checkErrors = 0, published = [], savedFiles = []\<rparr>"

definition sampleLink :: "string \<Rightarrow> link" where
  "sampleLink i =
     \<lparr>statusId = i, fullUrl = ''https://x.com/u/status/'' @ i, linkUsername = ''u'',
      linkTweetPath = ''/u/status/'' @ i\<rparr>"

text \<open>Links with pairwise different ids: the id of link \<open>n\<close> is \<open>n + 1\<close> digits 1.\<close>

definition numberedLink :: "nat \<Rightarrow> link" where
  "numberedLink n = sampleLink (replicate (Suc n) (CHR ''1''))"

subsection \<open>Predicates on the assigner\<close>

definition nonNegative :: "assigner \<Rightarrow> bool" where
  "nonNegative s = list_all (\<lambda>(i, a). 0 \<le> workload a) (activeAccounts s)"



text \<open>An account id that cannot be selected: absent from the map, or marked as faulty.\<close>

definition faulty :: "string \<Rightarrow> assigner \<Rightarrow> bool" where
  "faulty aid s =
     (case map_of (activeAccounts s) aid of None \<Rightarrow> True | Some a \<Rightarrow> status a = Error)"

text \<open>The keys of a \<open>Map\<close> are distinct.\<close>

definition distinctIds :: "assigner \<Rightarrow> bool" where
  "distinctIds s = distinct (map fst (activeAccounts s))"

text \<open>The number of queued tasks that carry an account id, and the workload it should equal.\<close>

definition queuedFor :: "assigner \<Rightarrow> string \<Rightarrow> nat" where
  "queuedFor s aid = length (filter (\<lambda>t. accountId t = aid) (taskQueue s))"

definition loadMatchesQueue :: "assigner \<Rightarrow> bool" where
  "loadMatchesQueue s =
     list_all (\<lambda>(i, a). workload a = int (queuedFor s i)) (activeAccounts s)"

text \<open>The \<open>taskFailed\<close> events emitted so far, oldest first.\<close>

fun failedTask :: "assigner_event \<Rightarrow> (task \<times> string) list" where
  "failedTask (TaskFailed t msg) = [(t, msg)]"
| "failedTask _ = []"

definition taskFailures :: "assigner \<Rightarrow> (task \<times> string) list" where
  "taskFailures s = concat (map failedTask (emitted s))"

text \<open>
  The retry counts a run can show: a queued task has failed fewer times than the limit
  (or not at all), and a \<open>taskFailed\<close> event carries a task that has failed as many times
  as the limit (once, when the limit is below 1).
\<close>

definition retryBounded :: "assigner \<Rightarrow> bool" where
  "retryBounded s =
     (list_all (\<lambda>t. retryCount t = 0 \<or> int (retryCount t) < maxRetries s) (taskQueue s) \<and>
      list_all (\<lambda>(t, msg). int (retryCount t) = max 1 (maxRetries s)) (taskFailures s))"

section \<open>The facade: TwitterMonitorSystem.initializeAccountAssigner\<close>

text \<open>
  An entry of \<open>accountsConfig.accounts\<close>; only the id and the \<open>enabled\<close> flag are read
  here. The facade throws when no account is enabled, and otherwise builds the assigner
  and awaits \<open>initialize\<close>; \<open>settled\<close> is the order in which the sessions of the enabled
  accounts settle, as for \<open>initialize\<close>.
\<close>

record accountConfig =
  cfgId :: string
  enabled :: bool

datatype facade_error = NoCommentAccounts

definition initializeAccountAssigner ::
  "int option \<Rightarrow> accountConfig list \<Rightarrow> (string \<times> session_result) list \<Rightarrow>
   facade_error + assigner" where
  "initializeAccountAssigner ra accounts settled =
     (let commentAccounts = filter enabled accounts
      in if length commentAccounts = 0 then Inl NoCommentAccounts
         else Inr (initialize settled (newAssigner ra)))"

section \<open>Properties of the assigner\<close>

subsection \<open>Field lemmas\<close>

lemma modifyAccount_fields [simp]:
  "taskQueue (modifyAccount aid f s) = taskQueue s"
  "processingQueue (modifyAccount aid f s) = processingQueue s"
  "totalAssignments (modifyAccount aid f s) = totalAssignments s"
  "totalRepliesSent (modifyAccount aid f s) = totalRepliesSent s"
  "totalErrors (modifyAccount aid f s) = totalErrors s"
  "accountStats (modifyAccount aid f s) = accountStats s"
  "retry_attempts (modifyAccount aid f s) = retry_attempts s"
  "emitted (modifyAccount aid f s) = emitted s"
  by (simp_all add: modifyAccount_def)

lemma modifyStat_fields [simp]:
  "activeAccounts (modifyStat aid f s) = activeAccounts s"
  "taskQueue (modifyStat aid f s) = taskQueue s"
  "processingQueue (modifyStat aid f s) = processingQueue s"
  "totalAssignments (modifyStat aid f s) = totalAssignments s"
  "totalRepliesSent (modifyStat aid f s) = totalRepliesSent s"
  "totalErrors (modifyStat aid f s) = totalErrors s"
  "retry_attempts (modifyStat aid f s) = retry_attempts s"
  "emitted (modifyStat aid f s) = emitted s"
  by (simp_all add: modifyStat_def)

lemma emit_fields [simp]:
  "activeAccounts (emit e s) = activeAccounts s"
  "taskQueue (emit e s) = taskQueue s"
  "processingQueue (emit e s) = processingQueue s"
  "totalAssignments (emit e s) = totalAssignments s"
  "totalRepliesSent (emit e s) = totalRepliesSent s"
  "totalErrors (emit e s) = totalErrors s"
  "accountStats (emit e s) = accountStats s"
  "retry_attempts (emit e s) = retry_attempts s"
  "emitted (emit e s) = emitted s @ [e]"
  by (simp_all add: emit_def)

lemma decreaseWorkload_fields [simp]:
  "taskQueue (decreaseWorkload aid s) = taskQueue s"
  "totalErrors (decreaseWorkload aid s) = totalErrors s"
  "accountStats (decreaseWorkload aid s) = accountStats s"
  "retry_attempts (decreaseWorkload aid s) = retry_attempts s"
  "emitted (decreaseWorkload aid s) = emitted s"
  by (simp_all add: decreaseWorkload_def)

lemma map_fst_mapModify [simp]: "map fst (mapModify k f m) = map fst m"
  by (induction m) auto


subsection \<open>The workload never goes below zero\<close>

lemma list_all_mapModify:
  "list_all (\<lambda>(i, a). P a) m \<Longrightarrow> (\<And>a. P a \<Longrightarrow> P (f a)) \<Longrightarrow>
   list_all (\<lambda>(i, a). P a) (mapModify k f m)"
  by (induction m) auto

lemma list_all_mapSet:
  "list_all (\<lambda>(i, a). P a) m \<Longrightarrow> P v \<Longrightarrow> list_all (\<lambda>(i, a). P a) (mapSet k v m)"
  by (induction m) auto

lemma nonNegative_modifyAccount:
  "nonNegative s \<Longrightarrow> (\<And>a. 0 \<le> workload a \<Longrightarrow> 0 \<le> workload (f a)) \<Longrightarrow>
   nonNegative (modifyAccount aid f s)"
  unfolding nonNegative_def modifyAccount_def by (simp add: list_all_mapModify)

lemma nonNegative_fields [simp]:
  "nonNegative (s\<lparr>taskQueue := q\<rparr>) = nonNegative s"
  "nonNegative (s\<lparr>processingQueue := b\<rparr>) = nonNegative s"
  "nonNegative (s\<lparr>totalAssignments := n\<rparr>) = nonNegative s"
  "nonNegative (s\<lparr>totalRepliesSent := n\<rparr>) = nonNegative s"
  "nonNegative (s\<lparr>totalErrors := n\<rparr>) = nonNegative s"
  "nonNegative (s\<lparr>accountStats := st\<rparr>) = nonNegative s"
  "nonNegative (s\<lparr>emitted := es\<rparr>) = nonNegative s"
  by (simp_all add: nonNegative_def)

lemma nonNegative_modifyStat [simp]: "nonNegative (modifyStat aid f s) = nonNegative s"
  by (simp add: modifyStat_def)

lemma nonNegative_emit [simp]: "nonNegative (emit e s) = nonNegative s"
  by (simp add: emit_def)

lemma nonNegative_decreaseWorkload: "nonNegative s \<Longrightarrow> nonNegative (decreaseWorkload aid s)"
  unfolding decreaseWorkload_def by (rule nonNegative_modifyAccount) auto

lemma nonNegative_chargeError: "nonNegative s \<Longrightarrow> nonNegative (chargeError aid s)"
  unfolding chargeError_def
  by (auto split: option.splits intro!: nonNegative_decreaseWorkload nonNegative_modifyAccount)

lemma nonNegative_retryOrFail: "nonNegative s \<Longrightarrow> nonNegative (retryOrFail t e s)"
  unfolding retryOrFail_def Let_def
  by (auto split: option.splits intro!: nonNegative_modifyAccount)

lemma nonNegative_demote: "nonNegative s \<Longrightarrow> nonNegative (demote aid s)"
  unfolding demote_def
  by (auto split: option.splits intro!: nonNegative_modifyAccount)

lemma nonNegative_handleTaskError: "nonNegative s \<Longrightarrow> nonNegative (handleTaskError t e s)"
  unfolding handleTaskError_def
  by (simp add: nonNegative_demote nonNegative_retryOrFail nonNegative_chargeError)

lemma nonNegative_touch: "nonNegative s \<Longrightarrow> nonNegative (touch now aid s)"
  unfolding touch_def
  by (auto intro!: nonNegative_decreaseWorkload nonNegative_modifyAccount)

lemma nonNegative_processTask: "nonNegative s \<Longrightarrow> nonNegative (processTask now out t s)"
  unfolding processTask_def
  by (auto split: option.splits outcome.splits
      intro!: nonNegative_touch nonNegative_handleTaskError nonNegative_decreaseWorkload
        nonNegative_modifyAccount)

lemma nonNegative_processNext: "nonNegative s \<Longrightarrow> nonNegative (processNext now out s)"
  unfolding processNext_def
  by (auto split: list.splits intro!: nonNegative_processTask)

lemma nonNegative_assignOne: "nonNegative s \<Longrightarrow> nonNegative (assignOne now tw s)"
  unfolding assignOne_def
  by (auto split: option.splits intro!: nonNegative_modifyAccount)

lemma nonNegative_assignTweets: "nonNegative s \<Longrightarrow> nonNegative (assignTweets now tws s)"
  unfolding assignTweets_def
  by (induction tws arbitrary: s) (auto intro: nonNegative_assignOne)

lemma nonNegative_initAccount: "nonNegative s \<Longrightarrow> nonNegative (initAccount p s)"
proof (cases p)
  case (Pair aid r)
  assume "nonNegative s"
  then show ?thesis
    by (cases r) (auto simp: Pair nonNegative_def freshAccount_def intro!: list_all_mapSet)
qed

lemma nonNegative_initialize: "nonNegative s \<Longrightarrow> nonNegative (initialize settled s)"
proof -
  have "nonNegative s \<Longrightarrow> nonNegative (fold initAccount settled s)"
    by (induction settled arbitrary: s) (auto intro: nonNegative_initAccount)
  then show "nonNegative s \<Longrightarrow> nonNegative (initialize settled s)"
    by (simp add: initialize_def Let_def)
qed

lemma nonNegative_resetStats: "nonNegative s \<Longrightarrow> nonNegative (resetStats s)"
  by (auto simp: resetStats_def nonNegative_def list_all_iff)

lemma nonNegative_cleanup: "nonNegative (cleanup s)"
  by (simp add: cleanup_def nonNegative_def)

lemma nonNegative_step: "nonNegative s \<Longrightarrow> nonNegative (step op s)"
  by (cases op)
    (simp_all add: nonNegative_initialize nonNegative_assignTweets nonNegative_processNext
       nonNegative_resetStats nonNegative_cleanup)

text \<open>
  C10. The workload of every account is never negative: a new account starts at 0 (the
  constructor has no accounts, \<open>initialize\<close> stores 0), assignment and reassignment add
  one, and \<open>decreaseWorkload\<close> subtracts one only from a positive workload. So whatever
  operations run, in whatever order and with whatever answers of the external services,
  a state whose workloads are all at least 0 is followed only by such states.
\<close>

theorem workload_never_negative:
  "nonNegative s \<Longrightarrow> nonNegative (run ops s)"
  unfolding run_def by (induction ops arbitrary: s) (auto intro: nonNegative_step)

theorem workload_never_negative_witness:
  "nonNegative (newAssigner None) \<and>
   nonNegative
     (run [Initialize [(''a'', SessionOk), (''b'', SessionRefused)],
           AssignTweets 1 [sampleTweet ''1001'', sampleTweet ''1002''],
           ProcessNext 2 (AiFailed ''no reply''),
           ProcessNext 3 Declined,
           ProcessNext 4 (Threw ''boom'')] (newAssigner None)) \<and>
   map (\<lambda>(i, a). workload a)
     (activeAccounts
        (run [Initialize [(''a'', SessionOk), (''b'', SessionRefused)],
              AssignTweets 1 [sampleTweet ''1001'', sampleTweet ''1002''],
              ProcessNext 2 (AiFailed ''no reply''),
              ProcessNext 3 Declined,
              ProcessNext 4 (Threw ''boom'')] (newAssigner None))) = [0]"
proof -
  have h: "nonNegative (newAssigner None)"
    by (simp add: nonNegative_def newAssigner_def)
  have v: "map (\<lambda>(i, a). workload a)
     (activeAccounts
        (run [Initialize [(''a'', SessionOk), (''b'', SessionRefused)],
              AssignTweets 1 [sampleTweet ''1001'', sampleTweet ''1002''],
              ProcessNext 2 (AiFailed ''no reply''),
              ProcessNext 3 Declined,
              ProcessNext 4 (Threw ''boom'')] (newAssigner None))) = [0]"
    by code_simp
  from h workload_never_negative [OF h] v show ?thesis by blast
qed

subsection \<open>The load-balancing rule\<close>















text \<open>With equal loads the never-used account wins, then the one used earliest.\<close>

lemma selectBestAccount_equal_loads_never_used:
  "selectBestAccount (pool [(''x'', worker 1 (Some 700)), (''y'', worker 1 None)])
     = Some (''y'', worker 1 None)"
  by code_simp

lemma selectBestAccount_equal_loads_earliest:
  "selectBestAccount (pool [(''x'', worker 1 (Some 700)), (''y'', worker 1 (Some 300))])
     = Some (''y'', worker 1 (Some 300))"
  by code_simp

subsection \<open>Demotion of an account\<close>

lemma faulty_fields [simp]:
  "faulty aid (s\<lparr>taskQueue := q\<rparr>) = faulty aid s"
  "faulty aid (s\<lparr>processingQueue := b\<rparr>) = faulty aid s"
  "faulty aid (s\<lparr>totalAssignments := n\<rparr>) = faulty aid s"
  "faulty aid (s\<lparr>totalRepliesSent := n\<rparr>) = faulty aid s"
  "faulty aid (s\<lparr>totalErrors := n\<rparr>) = faulty aid s"
  "faulty aid (s\<lparr>accountStats := st\<rparr>) = faulty aid s"
  "faulty aid (s\<lparr>emitted := es\<rparr>) = faulty aid s"
  by (simp_all add: faulty_def)

lemma faulty_modifyStat [simp]: "faulty aid (modifyStat k f s) = faulty aid s"
  by (simp add: modifyStat_def)

lemma faulty_emit [simp]: "faulty aid (emit e s) = faulty aid s"
  by (simp add: emit_def)

















lemma distinctIds_fields [simp]:
  "distinctIds (s\<lparr>taskQueue := q\<rparr>) = distinctIds s"
  "distinctIds (s\<lparr>processingQueue := b\<rparr>) = distinctIds s"
  "distinctIds (s\<lparr>totalAssignments := n\<rparr>) = distinctIds s"
  "distinctIds (s\<lparr>totalRepliesSent := n\<rparr>) = distinctIds s"
  "distinctIds (s\<lparr>totalErrors := n\<rparr>) = distinctIds s"
  "distinctIds (s\<lparr>accountStats := st\<rparr>) = distinctIds s"
  "distinctIds (s\<lparr>emitted := es\<rparr>) = distinctIds s"
  by (simp_all add: distinctIds_def)

lemma distinctIds_simps [simp]:
  "distinctIds (modifyAccount k f s) = distinctIds s"
  "distinctIds (modifyStat k g s) = distinctIds s"
  "distinctIds (emit e s) = distinctIds s"
  "distinctIds (decreaseWorkload k s) = distinctIds s"
  by (simp_all add: distinctIds_def modifyAccount_def modifyStat_def emit_def decreaseWorkload_def)

lemma distinctIds_chargeError [simp]: "distinctIds (chargeError k s) = distinctIds s"
  by (simp add: chargeError_def split: option.splits)

lemma distinctIds_retryOrFail [simp]: "distinctIds (retryOrFail t e s) = distinctIds s"
  by (simp add: retryOrFail_def Let_def split: option.splits)

lemma distinctIds_demote [simp]: "distinctIds (demote k s) = distinctIds s"
  by (simp add: demote_def split: option.splits)

lemma distinctIds_handleTaskError [simp]: "distinctIds (handleTaskError t e s) = distinctIds s"
  by (simp add: handleTaskError_def)

lemma distinctIds_touch [simp]: "distinctIds (touch now k s) = distinctIds s"
  by (simp add: touch_def)

lemma distinctIds_processTask [simp]: "distinctIds (processTask now out t s) = distinctIds s"
  by (simp add: processTask_def split: option.splits outcome.splits)

lemma distinctIds_processNext [simp]: "distinctIds (processNext now out s) = distinctIds s"
  by (simp add: processNext_def split: list.splits)

lemma distinctIds_assignOne [simp]: "distinctIds (assignOne now tw s) = distinctIds s"
  by (simp add: assignOne_def split: option.splits)

lemma distinctIds_assignTweets [simp]: "distinctIds (assignTweets now tws s) = distinctIds s"
  unfolding assignTweets_def by (induction tws arbitrary: s) auto

lemma map_fst_mapSet:
  "map fst (mapSet k v m) = (if k \<in> fst ` set m then map fst m else map fst m @ [k])"
  by (induction m) (fastforce simp: image_iff)+







lemma distinctIds_newAssigner: "distinctIds (newAssigner ra)"
  by (simp add: distinctIds_def newAssigner_def)







subsection \<open>Workload against the queue\<close>

text \<open>
  C5. The workload of an account is meant to be the number of its unfinished tasks. One
  account, two tweets: after the assignment the workload is 2 and two tasks are queued.
  The reply generator then fails on the first task: \<open>handleTaskError\<close> decrements the
  workload and \<open>processTask\<close> decrements it again, so the workload is 0 while one task of
  the account is still queued.
\<close>

theorem workload_invariant_broken:
  "loadMatchesQueue
     (run [Initialize [(''a'', SessionOk)],
           AssignTweets 1 [sampleTweet ''1001'', sampleTweet ''1002'']] (newAssigner None)) \<and>
   \<not> loadMatchesQueue
     (run [Initialize [(''a'', SessionOk)],
           AssignTweets 1 [sampleTweet ''1001'', sampleTweet ''1002''],
           ProcessNext 2 (AiFailed ''no reply'')] (newAssigner None)) \<and>
   map (\<lambda>(i, a). (i, workload a))
     (activeAccounts
        (run [Initialize [(''a'', SessionOk)],
              AssignTweets 1 [sampleTweet ''1001'', sampleTweet ''1002''],
              ProcessNext 2 (AiFailed ''no reply'')] (newAssigner None))) = [(''a'', 0)] \<and>
   map accountId
     (taskQueue
        (run [Initialize [(''a'', SessionOk)],
              AssignTweets 1 [sampleTweet ''1001'', sampleTweet ''1002''],
              ProcessNext 2 (AiFailed ''no reply'')] (newAssigner None))) = [''a'']"
  by code_simp

subsection \<open>Reassignment after a failure\<close>

text \<open>
  C6. Two fresh accounts, one tweet, assigned to \<open>a\<close>. The task fails once. The retry
  count 1 is below the limit 3, and \<open>b\<close> is active and idle; but \<open>selectBestAccount\<close>
  does not exclude the account that failed, returns \<open>a\<close> again (its workload is back
  to 0 and it comes first), and the task is neither queued again nor reported as failed.
\<close>

theorem retry_drops_task_despite_alternative:
  "map accountId
     (taskQueue
        (run [Initialize [(''a'', SessionOk), (''b'', SessionOk)],
              AssignTweets 1 [sampleTweet ''1001'']] (newAssigner None))) = [''a''] \<and>
   taskQueue
     (run [Initialize [(''a'', SessionOk), (''b'', SessionOk)],
           AssignTweets 1 [sampleTweet ''1001''],
           ProcessNext 2 (Threw ''boom'')] (newAssigner None)) = [] \<and>
   taskFailures
     (run [Initialize [(''a'', SessionOk), (''b'', SessionOk)],
           AssignTweets 1 [sampleTweet ''1001''],
           ProcessNext 2 (Threw ''boom'')] (newAssigner None)) = [] \<and>
   map (\<lambda>(i, a). (i, status a, workload a, errors a))
     (activeAccounts
        (run [Initialize [(''a'', SessionOk), (''b'', SessionOk)],
              AssignTweets 1 [sampleTweet ''1001''],
              ProcessNext 2 (Threw ''boom'')] (newAssigner None)))
     = [(''a'', Active, 0, 1), (''b'', Active, 0, 0)]"
  by code_simp

subsection \<open>The retry bound\<close>

lemma taskFailures_fields [simp]:
  "taskFailures (s\<lparr>taskQueue := q\<rparr>) = taskFailures s"
  "taskFailures (s\<lparr>processingQueue := b\<rparr>) = taskFailures s"
  "taskFailures (s\<lparr>totalAssignments := n\<rparr>) = taskFailures s"
  "taskFailures (s\<lparr>totalRepliesSent := n\<rparr>) = taskFailures s"
  "taskFailures (s\<lparr>totalErrors := n\<rparr>) = taskFailures s"
  "taskFailures (s\<lparr>accountStats := st\<rparr>) = taskFailures s"
  "taskFailures (s\<lparr>activeAccounts := m\<rparr>) = taskFailures s"
  "taskFailures (modifyAccount k f s) = taskFailures s"
  "taskFailures (modifyStat k g s) = taskFailures s"
  "taskFailures (decreaseWorkload k s) = taskFailures s"
  "taskFailures (emit e s) = taskFailures s @ failedTask e"
  by (simp_all add: taskFailures_def)

lemma maxRetries_fields [simp]:
  "maxRetries (s\<lparr>taskQueue := q\<rparr>) = maxRetries s"
  "maxRetries (s\<lparr>processingQueue := b\<rparr>) = maxRetries s"
  "maxRetries (s\<lparr>totalAssignments := n\<rparr>) = maxRetries s"
  "maxRetries (s\<lparr>totalRepliesSent := n\<rparr>) = maxRetries s"
  "maxRetries (s\<lparr>totalErrors := n\<rparr>) = maxRetries s"
  "maxRetries (s\<lparr>accountStats := st\<rparr>) = maxRetries s"
  "maxRetries (s\<lparr>activeAccounts := m\<rparr>) = maxRetries s"
  "maxRetries (s\<lparr>emitted := es\<rparr>) = maxRetries s"
  "maxRetries (modifyAccount k f s) = maxRetries s"
  "maxRetries (modifyStat k g s) = maxRetries s"
  "maxRetries (decreaseWorkload k s) = maxRetries s"
  "maxRetries (emit e s) = maxRetries s"
  by (simp_all add: maxRetries_def emit_def)

lemma chargeError_fields [simp]:
  "taskQueue (chargeError k s) = taskQueue s"
  "taskFailures (chargeError k s) = taskFailures s"
  "maxRetries (chargeError k s) = maxRetries s"
  "totalErrors (chargeError k s) = totalErrors s"
  by (simp_all add: chargeError_def split: option.splits)

lemma demote_fields [simp]:
  "taskQueue (demote k s) = taskQueue s"
  "taskFailures (demote k s) = taskFailures s"
  "maxRetries (demote k s) = maxRetries s"
  "totalErrors (demote k s) = totalErrors s"
  by (simp_all add: demote_def split: option.splits)

lemma touch_fields [simp]:
  "taskQueue (touch now k s) = taskQueue s"
  "taskFailures (touch now k s) = taskFailures s"
  "maxRetries (touch now k s) = maxRetries s"
  "totalErrors (touch now k s) = totalErrors s"
  by (simp_all add: touch_def)

lemma retryOrFail_maxRetries [simp]: "maxRetries (retryOrFail t e s) = maxRetries s"
  by (simp add: retryOrFail_def Let_def split: option.splits)

lemma handleTaskError_maxRetries [simp]: "maxRetries (handleTaskError t e s) = maxRetries s"
  by (simp add: handleTaskError_def)

lemma handleTaskError_totalErrors [simp]:
  "totalErrors (handleTaskError t e s) = totalErrors s + 1"
  by (simp add: handleTaskError_def retryOrFail_def Let_def split: option.splits)

lemma handleTaskError_retry:
  assumes "int (retryCount t) + 1 < maxRetries s"
  shows "taskFailures (handleTaskError t e s) = taskFailures s \<and>
         (taskQueue (handleTaskError t e s) = taskQueue s \<or>
          (\<exists>nid. nid \<noteq> accountId t \<and>
             taskQueue (handleTaskError t e s) =
               taskQueue s @ [t\<lparr>accountId := nid, retryCount := retryCount t + 1\<rparr>]))"
  using assms
  by (auto simp: handleTaskError_def retryOrFail_def Let_def split: option.splits)

lemma handleTaskError_final:
  assumes "\<not> int (retryCount t) + 1 < maxRetries s"
  shows "taskFailures (handleTaskError t e s) =
           taskFailures s @ [(t\<lparr>retryCount := retryCount t + 1\<rparr>, e)] \<and>
         taskQueue (handleTaskError t e s) = taskQueue s"
  using assms
  by (auto simp: handleTaskError_def retryOrFail_def Let_def split: option.splits)

lemma retryBounded_handleTaskError:
  assumes "retryBounded s" and "retryCount t = 0 \<or> int (retryCount t) < maxRetries s"
  shows "retryBounded (handleTaskError t e s)"
proof (cases "int (retryCount t) + 1 < maxRetries s")
  case True
  from handleTaskError_retry [OF True, of e] assms(1) show ?thesis
    using True by (auto simp: retryBounded_def)
next
  case False
  from handleTaskError_final [OF False, of e] assms show ?thesis
    using False by (auto simp: retryBounded_def)
qed

lemma retryBounded_same:
  "taskQueue s' = taskQueue s \<Longrightarrow> taskFailures s' = taskFailures s \<Longrightarrow>
   maxRetries s' = maxRetries s \<Longrightarrow> retryBounded s' = retryBounded s"
  by (simp add: retryBounded_def)

lemma retryBounded_processTask:
  assumes "retryBounded s" and "retryCount t = 0 \<or> int (retryCount t) < maxRetries s"
  shows "retryBounded (processTask now out t s)"
proof -
  have h: "retryBounded (handleTaskError t e s)" for e
    using assms by (rule retryBounded_handleTaskError)
  have tch: "retryBounded (touch now k s') = retryBounded s'" for k s'
    by (rule retryBounded_same) simp_all
  have dec: "retryBounded (decreaseWorkload k s') = retryBounded s'" for k s'
    by (rule retryBounded_same) simp_all
  have post: "retryBounded (emit (ReplySuccess a b c d) (modifyStat k g (modifyAccount k' f (s\<lparr>totalRepliesSent := n\<rparr>)))) = retryBounded s"
    for a b c d k g k' f n
    by (rule retryBounded_same) simp_all
  show ?thesis
    using assms(1) h
    by (simp add: processTask_def tch dec post split: option.splits outcome.splits)
qed

lemma retryBounded_processNext: "retryBounded s \<Longrightarrow> retryBounded (processNext now out s)"
proof (cases "taskQueue s")
  case Nil
  assume "retryBounded s"
  then show ?thesis
    using Nil by (simp add: processNext_def retryBounded_def)
next
  case (Cons t rest)
  assume rb: "retryBounded s"
  then have 1: "retryBounded (s\<lparr>taskQueue := rest, processingQueue := True\<rparr>)"
    using Cons by (simp add: retryBounded_def)
  from rb Cons have 2: "retryCount t = 0 \<or> int (retryCount t) < maxRetries (s\<lparr>taskQueue := rest, processingQueue := True\<rparr>)"
    by (simp add: retryBounded_def)
  from retryBounded_processTask [OF 1 2] show ?thesis
    using Cons by (simp add: processNext_def)
qed

lemma retryBounded_assignOne: "retryBounded s \<Longrightarrow> retryBounded (assignOne now tw s)"
  by (auto simp: assignOne_def retryBounded_def split: option.splits)

lemma retryBounded_assignTweets: "retryBounded s \<Longrightarrow> retryBounded (assignTweets now tws s)"
  unfolding assignTweets_def
  by (induction tws arbitrary: s) (auto intro: retryBounded_assignOne)

lemma fold_initAccount_fields [simp]:
  "taskQueue (fold initAccount settled s) = taskQueue s"
  "emitted (fold initAccount settled s) = emitted s"
  "retry_attempts (fold initAccount settled s) = retry_attempts s"
proof (induction settled arbitrary: s)
  case Nil
  { case 1 show ?case by simp next
    case 2 show ?case by simp next
    case 3 show ?case by simp }
next
  case (Cons p settled)
  obtain aid r where p: "p = (aid, r)" by (cases p)
  { case 1 show ?case using Cons.IH(1) by (cases r) (simp_all add: p) next
    case 2 show ?case using Cons.IH(2) by (cases r) (simp_all add: p) next
    case 3 show ?case using Cons.IH(3) by (cases r) (simp_all add: p) }
qed

lemma retryBounded_initialize: "retryBounded s \<Longrightarrow> retryBounded (initialize settled s)"
  by (simp add: initialize_def Let_def retryBounded_def taskFailures_def maxRetries_def)

lemma retryBounded_resetStats: "retryBounded s \<Longrightarrow> retryBounded (resetStats s)"
  by (simp add: resetStats_def retryBounded_def taskFailures_def maxRetries_def)

lemma retryBounded_cleanup: "retryBounded s \<Longrightarrow> retryBounded (cleanup s)"
  by (simp add: cleanup_def retryBounded_def taskFailures_def maxRetries_def)

lemma retryBounded_step: "retryBounded s \<Longrightarrow> retryBounded (step op s)"
  by (cases op)
    (simp_all add: retryBounded_initialize retryBounded_assignTweets retryBounded_processNext
       retryBounded_resetStats retryBounded_cleanup)

lemma retryBounded_run: "retryBounded s \<Longrightarrow> retryBounded (run ops s)"
  unfolding run_def by (induction ops arbitrary: s) (auto intro: retryBounded_step)

lemma retryBounded_newAssigner: "retryBounded (newAssigner ra)"
  by (simp add: retryBounded_def newAssigner_def taskFailures_def)

text \<open>
  C2, as the code has it. Every failure adds one to the retry count of the task and one to
  the error total. While the new count is below \<open>maxRetries\<close>, no \<open>taskFailed\<close> event is
  emitted and the task is queued again at most once, under another account id and with
  the new count. The failure that brings the count to \<open>maxRetries\<close> emits exactly one
  \<open>taskFailed\<close> event and does not queue the task again. So in every run a queued task has
  failed fewer than \<open>maxRetries\<close> times, and a task reported as failed has failed exactly
  \<open>maxRetries\<close> times: it was processed \<open>maxRetries\<close> times and retried one time fewer.
\<close>

theorem retry_bound:
  "retryBounded (run ops (newAssigner ra)) \<and>
   totalErrors (handleTaskError t e s) = totalErrors s + 1 \<and>
   (int (retryCount t) + 1 < maxRetries s \<longrightarrow>
      taskFailures (handleTaskError t e s) = taskFailures s \<and>
      (taskQueue (handleTaskError t e s) = taskQueue s \<or>
       (\<exists>nid. nid \<noteq> accountId t \<and>
          taskQueue (handleTaskError t e s) =
            taskQueue s @ [t\<lparr>accountId := nid, retryCount := retryCount t + 1\<rparr>]))) \<and>
   (\<not> int (retryCount t) + 1 < maxRetries s \<longrightarrow>
      taskFailures (handleTaskError t e s) =
        taskFailures s @ [(t\<lparr>retryCount := retryCount t + 1\<rparr>, e)] \<and>
      taskQueue (handleTaskError t e s) = taskQueue s)"
  using retryBounded_run [OF retryBounded_newAssigner, of ops ra]
    handleTaskError_retry [of t s e] handleTaskError_final [of t s e]
  by (simp only: handleTaskError_totalErrors) blast

text \<open>
  In \<open>busyRun\<close> the task of tweet 1002 fails on \<open>b\<close>, is retried on \<open>a\<close>, fails, and waits
  on \<open>b\<close> with retry count 2. Its third failure is the last one: one event, nothing queued.
\<close>

theorem retry_bound_witness:
  "map (\<lambda>t. (tweetId (taskTweet t), accountId t, retryCount t))
     (taskQueue (run busyRun (newAssigner None))) = [(''1002'', ''b'', 2)] \<and>
   \<not> int (retryCount (hd (taskQueue (run busyRun (newAssigner None))))) + 1
       < maxRetries (run busyRun (newAssigner None)) \<and>
   retryBounded (run (busyRun @ [ProcessNext 7 (Threw ''boom'')]) (newAssigner None)) \<and>
   map (\<lambda>(t, msg). (tweetId (taskTweet t), accountId t, retryCount t))
     (taskFailures (run (busyRun @ [ProcessNext 7 (Threw ''boom'')]) (newAssigner None)))
     = [(''1002'', ''b'', 3)] \<and>
   taskQueue (run (busyRun @ [ProcessNext 7 (Threw ''boom'')]) (newAssigner None)) = [] \<and>
   map (\<lambda>(t, msg). (tweetId (taskTweet t), accountId t, retryCount t))
     (taskFailures
        (handleTaskError (hd (taskQueue (run busyRun (newAssigner None)))) ''boom''
           ((run busyRun (newAssigner None))\<lparr>taskQueue := []\<rparr>)))
     = [(''1002'', ''b'', 3)]"
proof -
  have v1: "map (\<lambda>t. (tweetId (taskTweet t), accountId t, retryCount t))
     (taskQueue (run busyRun (newAssigner None))) = [(''1002'', ''b'', 2)]"
    by code_simp
  have v2: "\<not> int (retryCount (hd (taskQueue (run busyRun (newAssigner None))))) + 1
       < maxRetries (run busyRun (newAssigner None))"
    by code_simp
  have v3: "map (\<lambda>(t, msg). (tweetId (taskTweet t), accountId t, retryCount t))
     (taskFailures (run (busyRun @ [ProcessNext 7 (Threw ''boom'')]) (newAssigner None)))
     = [(''1002'', ''b'', 3)]"
    by code_simp
  have v4: "taskQueue (run (busyRun @ [ProcessNext 7 (Threw ''boom'')]) (newAssigner None)) = []"
    by code_simp
  have v5: "map (\<lambda>(t, msg). (tweetId (taskTweet t), accountId t, retryCount t))
     (taskFailures
        (handleTaskError (hd (taskQueue (run busyRun (newAssigner None)))) ''boom''
           ((run busyRun (newAssigner None))\<lparr>taskQueue := []\<rparr>)))
     = [(''1002'', ''b'', 3)]"
    by code_simp
  from retry_bound [of "busyRun @ [ProcessNext 7 (Threw ''boom'')]" None
      "hd (taskQueue (run busyRun (newAssigner None)))" "''boom''"
      "(run busyRun (newAssigner None))\<lparr>taskQueue := []\<rparr>"]
  have "retryBounded (run (busyRun @ [ProcessNext 7 (Threw ''boom'')]) (newAssigner None))"
    by blast
  with v1 v2 v3 v4 v5 show ?thesis by blast
qed

text \<open>
  With \<open>retry_attempts = 1\<close> a task that always fails is processed once and never retried:
  the error total is 1 after any number of further turns, and the one \<open>taskFailed\<close> event
  carries retry count 1, which equals the limit and does not exceed it. The specification asks for
  one retry (two failures) and a retry count above the limit.
\<close>

theorem retry_count_counterexample:
  "maxRetries (newAssigner (Some 1)) = 1 \<and>
   totalErrors
     (run [Initialize [(''a'', SessionOk), (''b'', SessionOk)],
           AssignTweets 1 [sampleTweet ''1001''],
           ProcessNext 2 (Threw ''boom''),
           ProcessNext 3 (Threw ''boom''),
           ProcessNext 4 (Threw ''boom'')] (newAssigner (Some 1))) = 1 \<and>
   map (\<lambda>(t, msg). retryCount t)
     (taskFailures
        (run [Initialize [(''a'', SessionOk), (''b'', SessionOk)],
              AssignTweets 1 [sampleTweet ''1001''],
              ProcessNext 2 (Threw ''boom''),
              ProcessNext 3 (Threw ''boom''),
              ProcessNext 4 (Threw ''boom'')] (newAssigner (Some 1)))) = [1] \<and>
   taskQueue
     (run [Initialize [(''a'', SessionOk), (''b'', SessionOk)],
           AssignTweets 1 [sampleTweet ''1001''],
           ProcessNext 2 (Threw ''boom'')] (newAssigner (Some 1))) = []"
  by code_simp

subsection \<open>Initialization\<close>

lemma ids_mapSet: "fst ` set (mapSet k v m) = insert k (fst ` set m)"
proof -
  have "set (map fst (mapSet k v m)) = insert k (set (map fst m))"
    unfolding map_fst_mapSet by auto
  then show ?thesis by simp
qed

lemma ids_fold_initAccount:
  "fst ` set (activeAccounts (fold initAccount settled s)) =
     fst ` set (activeAccounts s) \<union> {i. (i, SessionOk) \<in> set settled}"
proof (induction settled arbitrary: s)
  case Nil
  then show ?case by simp
next
  case (Cons p settled)
  obtain aid r where p: "p = (aid, r)" by (cases p)
  show ?case
    by (cases r) (auto simp: p Cons.IH ids_mapSet)
qed

text \<open>
  C8, as the code has it. \<open>initialize\<close> itself never fails. The facade fails exactly when no
  account is enabled in the configuration, before any session is started. Otherwise the
  active pool holds exactly the accounts whose session was established, an account whose
  session was refused or threw being left out, and the only event is
  \<open>accountsInitialized\<close> with the size of the pool, which may be 0.
\<close>

theorem initialization_error_iff:
  "(isl (initializeAccountAssigner ra accounts settled) \<longleftrightarrow> filter enabled accounts = []) \<and>
   (filter enabled accounts \<noteq> [] \<longrightarrow>
      fst ` set (activeAccounts (projr (initializeAccountAssigner ra accounts settled))) =
        {i. (i, SessionOk) \<in> set settled} \<and>
      emitted (projr (initializeAccountAssigner ra accounts settled)) =
        [AccountsInitialized
           (length (activeAccounts (projr (initializeAccountAssigner ra accounts settled))))])"
  by (auto simp: initializeAccountAssigner_def Let_def initialize_def ids_fold_initAccount
      newAssigner_def)

theorem initialization_error_iff_witness:
  "filter enabled [\<lparr>cfgId = ''a'', enabled = True\<rparr>, \<lparr>cfgId = ''b'', enabled = True\<rparr>,
                   \<lparr>cfgId = ''c'', enabled = False\<rparr>] \<noteq> [] \<and>
   map fst (activeAccounts (projr (initializeAccountAssigner None
      [\<lparr>cfgId = ''a'', enabled = True\<rparr>, \<lparr>cfgId = ''b'', enabled = True\<rparr>,
       \<lparr>cfgId = ''c'', enabled = False\<rparr>]
      [(''b'', SessionOk), (''a'', SessionThrew ''timeout'')]))) = [''b'']"
proof -
  have h: "filter enabled [\<lparr>cfgId = ''a'', enabled = True\<rparr>, \<lparr>cfgId = ''b'', enabled = True\<rparr>,
                   \<lparr>cfgId = ''c'', enabled = False\<rparr>] \<noteq> []"
    by simp
  have v: "map fst (activeAccounts (projr (initializeAccountAssigner None
      [\<lparr>cfgId = ''a'', enabled = True\<rparr>, \<lparr>cfgId = ''b'', enabled = True\<rparr>,
       \<lparr>cfgId = ''c'', enabled = False\<rparr>]
      [(''b'', SessionOk), (''a'', SessionThrew ''timeout'')]))) = [''b'']"
    by (simp add: initializeAccountAssigner_def initialize_def newAssigner_def emit_def)
  from initialization_error_iff [of None
      "[\<lparr>cfgId = ''a'', enabled = True\<rparr>, \<lparr>cfgId = ''b'', enabled = True\<rparr>,
        \<lparr>cfgId = ''c'', enabled = False\<rparr>]"
      "[(''b'', SessionOk), (''a'', SessionThrew ''timeout'')]"] h v
  show ?thesis by blast
qed

text \<open>
  One enabled account whose session is refused: no worker is active, and the caller gets
  an assigner, not an error.
\<close>

theorem initialization_no_error_counterexample:
  "\<not> isl (initializeAccountAssigner None [\<lparr>cfgId = ''a'', enabled = True\<rparr>]
            [(''a'', SessionRefused)]) \<and>
   activeAccounts (projr (initializeAccountAssigner None [\<lparr>cfgId = ''a'', enabled = True\<rparr>]
            [(''a'', SessionRefused)])) = []"
  by (simp add: initializeAccountAssigner_def initialize_def newAssigner_def emit_def)

section \<open>Properties of the listener\<close>

lemma scan_fold:
  "fold (scanLink now) ls (L, nt, h) = (L1, nt1, h1) \<Longrightarrow>
   \<exists>b. nt1 = nt @ b \<and>
       processedTweets L1 = processedTweets L @ map tweetId b \<and>
       distinct (map tweetId b) \<and>
       set (map tweetId b) = set (map statusId ls) - set (processedTweets L) \<and>
       h1 = (h \<or> b \<noteq> []) \<and>
       published L1 = published L \<and> savedFiles L1 = savedFiles L \<and>
       isListening L1 = isListening L \<and> authPresent L1 = authPresent L"
proof (induction ls arbitrary: L nt h)
  case Nil
  then show ?case by auto
next
  case (Cons l ls)
  show ?case
  proof (cases "statusId l \<in> set (processedTweets L)")
    case True
    with Cons.prems have "fold (scanLink now) ls (L, nt, h) = (L1, nt1, h1)" by simp
    from Cons.IH [OF this] obtain b where b: "nt1 = nt @ b"
      "processedTweets L1 = processedTweets L @ map tweetId b"
      "distinct (map tweetId b)"
      "set (map tweetId b) = set (map statusId ls) - set (processedTweets L)"
      "h1 = (h \<or> b \<noteq> [])" "published L1 = published L" "savedFiles L1 = savedFiles L"
      "isListening L1 = isListening L" "authPresent L1 = authPresent L"
      by blast
    from b(4) True have "set (map tweetId b) = set (map statusId (l # ls)) - set (processedTweets L)"
      by auto
    with b show ?thesis by blast
  next
    case False
    let ?L = "L\<lparr>processedTweets := processedTweets L @ [statusId l], tweetsFound := tweetsFound L + 1\<rparr>"
    from Cons.prems False
    have "fold (scanLink now) ls (?L, nt @ [discovered now l], True) = (L1, nt1, h1)" by simp
    from Cons.IH [OF this] obtain b where b: "nt1 = (nt @ [discovered now l]) @ b"
      "processedTweets L1 = processedTweets ?L @ map tweetId b"
      "distinct (map tweetId b)"
      "set (map tweetId b) = set (map statusId ls) - set (processedTweets ?L)"
      "h1 = (True \<or> b \<noteq> [])" "published L1 = published ?L" "savedFiles L1 = savedFiles ?L"
      "isListening L1 = isListening ?L" "authPresent L1 = authPresent ?L"
      by blast
    let ?b = "discovered now l # b"
    have 1: "nt1 = nt @ ?b" using b(1) by simp
    have 2: "processedTweets L1 = processedTweets L @ map tweetId ?b"
      using b(2) by (simp add: discovered_def)
    have 3: "distinct (map tweetId ?b)"
      using b(3,4) by (auto simp: discovered_def)
    have 4: "set (map tweetId ?b) = set (map statusId (l # ls)) - set (processedTweets L)"
      using b(4) False by (auto simp: discovered_def)
    have 5: "h1 = (h \<or> ?b \<noteq> [])" using b(5) by simp
    from 1 2 3 4 5 b(6-9) show ?thesis
      by (intro exI [of _ ?b]) simp
  qed
qed

lemma foundBatches_simps [simp]:
  "foundBatches (L\<lparr>processedTweets := p\<rparr>) = foundBatches L"
  "foundBatches (L\<lparr>savedFiles := sf\<rparr>) = foundBatches L"
  "foundBatches (L\<lparr>tweetsFound := n\<rparr>) = foundBatches L"
  "foundBatches (L\<lparr>lastCheck := lc\<rparr>) = foundBatches L"
  "foundBatches (L\<lparr>totalMessages := tm\<rparr>) = foundBatches L"
  "foundBatches (L\<lparr>checkErrors := ce\<rparr>) = foundBatches L"
  "foundBatches (publish e L) = foundBatches L @ foundBatch e"
  "foundBatches (saveProcessedTweets L) = foundBatches L"
  by (simp_all add: foundBatches_def publish_def saveProcessedTweets_def)

lemma publish_fields [simp]:
  "processedTweets (publish e L) = processedTweets L"
  "isListening (publish e L) = isListening L"
  "authPresent (publish e L) = authPresent L"
  "published (publish e L) = published L @ [e]"
  by (simp_all add: publish_def)

lemma saveProcessedTweets_fields [simp]:
  "processedTweets (saveProcessedTweets L) = processedTweets L"
  "isListening (saveProcessedTweets L) = isListening L"
  "authPresent (saveProcessedTweets L) = authPresent L"
  "published (saveProcessedTweets L) = published L"
  by (simp_all add: saveProcessedTweets_def)

lemma trimProcessed_simps [simp]:
  "foundBatches (trimProcessed h L) = foundBatches L"
  "processedTweets (trimProcessed h L) = trimmed (processedTweets L)"
  "isListening (trimProcessed h L) = isListening L"
  "authPresent (trimProcessed h L) = authPresent L"
  by (simp_all add: trimProcessed_def trimmed_def Let_def saveProcessedTweets_def foundBatches_def)

lemma processTweetLinks_batch:
  "\<exists>b. foundBatches (processTweetLinks now ls L) = foundBatches L @ (if b = [] then [] else [b]) \<and>
       distinct (map tweetId b) \<and>
       set (map tweetId b) = set (map statusId ls) - set (processedTweets L) \<and>
       processedTweets (processTweetLinks now ls L) = trimmed (processedTweets L @ map tweetId b) \<and>
       isListening (processTweetLinks now ls L) = isListening L \<and>
       authPresent (processTweetLinks now ls L) = authPresent L"
proof -
  obtain L1 nt1 h1 where f: "fold (scanLink now) ls (L, [], False) = (L1, nt1, h1)"
    by (metis prod_cases3)
  from scan_fold [OF f] obtain b where b: "nt1 = b"
      "processedTweets L1 = processedTweets L @ map tweetId b"
      "distinct (map tweetId b)"
      "set (map tweetId b) = set (map statusId ls) - set (processedTweets L)"
      "published L1 = published L" "isListening L1 = isListening L" "authPresent L1 = authPresent L"
    by auto
  have fb: "foundBatches L1 = foundBatches L"
    using b(5) by (simp add: foundBatches_def)
  show ?thesis
    using b(2,3,4,6,7) fb
    by (intro exI [of _ b])
      (simp add: processTweetLinks_def f b(1))
qed


lemma checkGroupMessages_batch:
  "\<exists>b. foundBatches (checkGroupMessages now r L) = foundBatches L @ (if b = [] then [] else [b]) \<and>
       distinct (map tweetId b) \<and>
       set (map tweetId b) \<inter> set (processedTweets L) = {} \<and>
       set (map tweetId b) \<subseteq> set (extractedIds (now, r)) \<and>
       (processedTweets (checkGroupMessages now r L) = processedTweets L @ map tweetId b \<or>
        length (processedTweets L @ map tweetId b) > 1000 \<and>
        processedTweets (checkGroupMessages now r L) = trimmed (processedTweets L @ map tweetId b)) \<and>
       isListening (checkGroupMessages now r L) = isListening L \<and>
       authPresent (checkGroupMessages now r L) = authPresent L"
proof -
  have none: "foundBatches L' = foundBatches L \<Longrightarrow> processedTweets L' = processedTweets L \<Longrightarrow>
      isListening L' = isListening L \<Longrightarrow> authPresent L' = authPresent L \<Longrightarrow>
      \<exists>b. foundBatches L' = foundBatches L @ (if b = [] then [] else [b]) \<and>
       distinct (map tweetId b) \<and>
       set (map tweetId b) \<inter> set (processedTweets L) = {} \<and>
       set (map tweetId b) \<subseteq> set (extractedIds (now, r)) \<and>
       (processedTweets L' = processedTweets L @ map tweetId b \<or>
        length (processedTweets L @ map tweetId b) > 1000 \<and>
        processedTweets L' = trimmed (processedTweets L @ map tweetId b)) \<and>
       isListening L' = isListening L \<and> authPresent L' = authPresent L" for L'
    by (intro exI [of _ "[]"]) simp
  show ?thesis
  proof (cases "\<not> isListening L \<or> \<not> authPresent L")
    case True
    then have "checkGroupMessages now r L = L"
      by (simp add: checkGroupMessages_def)
    then show ?thesis using none [of L] by simp
  next
    case listening: False
    show ?thesis
    proof (cases r)
      case (PollFailed msg isAuth rr)
      show ?thesis
        using listening
        by (intro none)
          (auto simp: checkGroupMessages_def PollFailed Let_def handleAuthError_def
             split: reconnect_result.splits)
    next
      case (Notifications tl)
      show ?thesis
      proof (cases "\<exists>ls. tl = Some ls \<and> length ls > 0")
        case False
        then show ?thesis
          using listening
          by (intro none)
            (auto simp: checkGroupMessages_def Notifications Let_def split: option.splits)
      next
        case True
        then obtain ls where ls: "tl = Some ls" "length ls > 0" by blast
        let ?L2 = "L\<lparr>lastCheck := Some now, totalMessages := totalMessages L + 1\<rparr>"
        have eq: "checkGroupMessages now r L =
                  publish (MessageCheckCompleted now (length ls)) (processTweetLinks now ls ?L2)"
          using listening ls by (simp add: checkGroupMessages_def Notifications Let_def)
        from processTweetLinks_batch [of now ls ?L2] obtain b where b:
          "foundBatches (processTweetLinks now ls ?L2) = foundBatches ?L2 @ (if b = [] then [] else [b])"
          "distinct (map tweetId b)"
          "set (map tweetId b) = set (map statusId ls) - set (processedTweets ?L2)"
          "processedTweets (processTweetLinks now ls ?L2) = trimmed (processedTweets ?L2 @ map tweetId b)"
          "isListening (processTweetLinks now ls ?L2) = isListening ?L2"
          "authPresent (processTweetLinks now ls ?L2) = authPresent ?L2"
          by blast
        have fbc: "foundBatches (checkGroupMessages now r L) =
                   foundBatches L @ (if b = [] then [] else [b])"
          using b(1) by (simp add: eq)
        have pc: "processedTweets (checkGroupMessages now r L) =
                  trimmed (processedTweets L @ map tweetId b)"
          using b(4) by (simp add: eq)
        have alt: "processedTweets (checkGroupMessages now r L) = processedTweets L @ map tweetId b \<or>
                   length (processedTweets L @ map tweetId b) > 1000 \<and>
                   processedTweets (checkGroupMessages now r L) =
                     trimmed (processedTweets L @ map tweetId b)"
        proof (cases "length (processedTweets L @ map tweetId b) > 1000")
          case True
          with pc show ?thesis by blast
        next
          case False
          with pc show ?thesis by (simp add: trimmed_def)
        qed
        have sub: "set (map tweetId b) \<subseteq> set (extractedIds (now, r))"
          using b(3) by (auto simp: Notifications ls)
        have disj: "set (map tweetId b) \<inter> set (processedTweets L) = {}"
          using b(3) by auto
        have li: "isListening (checkGroupMessages now r L) = isListening L"
          using b(5) by (simp add: eq)
        have au: "authPresent (checkGroupMessages now r L) = authPresent L"
          using b(6) by (simp add: eq)
        from fbc b(2) disj sub alt li au show ?thesis by blast
      qed
    qed
  qed
qed

lemma emittedIds_append:
  "foundBatches L' = foundBatches L @ (if b = [] then [] else [b]) \<Longrightarrow>
   emittedIds L' = emittedIds L @ map tweetId b"
  by (simp add: emittedIds_def)

lemma pollCycles_Cons:
  "pollCycles ((now, r) # cycles) L = pollCycles cycles (checkGroupMessages now r L)"
  by (simp add: pollCycles_def)

lemma pollCycles_no_trim:
  assumes "distinct (processedTweets L)"
    and "card (set (processedTweets L) \<union> set (concat (map extractedIds cycles))) \<le> 1000"
  shows "\<exists>new. emittedIds (pollCycles cycles L) = emittedIds L @ new \<and> distinct new \<and>
           set new \<inter> set (processedTweets L) = {} \<and>
           set new \<subseteq> set (concat (map extractedIds cycles)) \<and>
           processedTweets (pollCycles cycles L) = processedTweets L @ new"
  using assms
proof (induction cycles arbitrary: L)
  case Nil
  then show ?case by (simp add: pollCycles_def)
next
  case (Cons c cycles)
  obtain now r where c: "c = (now, r)" by (cases c)
  let ?L1 = "checkGroupMessages now r L"
  let ?U = "set (processedTweets L) \<union> set (concat (map extractedIds (c # cycles)))"
  have finU: "finite ?U" by simp
  from checkGroupMessages_batch [of now r L] obtain b where b:
    "foundBatches ?L1 = foundBatches L @ (if b = [] then [] else [b])"
    "distinct (map tweetId b)"
    "set (map tweetId b) \<inter> set (processedTweets L) = {}"
    "set (map tweetId b) \<subseteq> set (extractedIds (now, r))"
    "processedTweets ?L1 = processedTweets L @ map tweetId b \<or>
     length (processedTweets L @ map tweetId b) > 1000 \<and>
     processedTweets ?L1 = trimmed (processedTweets L @ map tweetId b)"
    by blast
  have d: "distinct (processedTweets L @ map tweetId b)"
    using Cons.prems(1) b(2,3) by auto
  have sub: "set (processedTweets L @ map tweetId b) \<subseteq> ?U"
    using b(4) by (auto simp: c)
  have "length (processedTweets L @ map tweetId b) = card (set (processedTweets L @ map tweetId b))"
    by (rule distinct_card [OF d, symmetric])
  also have "\<dots> \<le> card ?U"
    using sub finU by (rule card_mono [rotated])
  finally have len: "length (processedTweets L @ map tweetId b) \<le> 1000"
    using Cons.prems(2) by simp
  with b(5) have p1: "processedTweets ?L1 = processedTweets L @ map tweetId b"
    by auto
  have d1: "distinct (processedTweets ?L1)" using d p1 by simp
  have "set (processedTweets ?L1) \<union> set (concat (map extractedIds cycles)) \<subseteq> ?U"
    using sub p1 by auto
  then have "card (set (processedTweets ?L1) \<union> set (concat (map extractedIds cycles))) \<le> card ?U"
    using finU by (rule card_mono [rotated])
  with Cons.prems(2) have c1: "card (set (processedTweets ?L1) \<union> set (concat (map extractedIds cycles))) \<le> 1000"
    by simp
  from Cons.IH [OF d1 c1] obtain new where new:
    "emittedIds (pollCycles cycles ?L1) = emittedIds ?L1 @ new" "distinct new"
    "set new \<inter> set (processedTweets ?L1) = {}"
    "set new \<subseteq> set (concat (map extractedIds cycles))"
    "processedTweets (pollCycles cycles ?L1) = processedTweets ?L1 @ new"
    by blast
  let ?new = "map tweetId b @ new"
  have e: "emittedIds (pollCycles (c # cycles) L) = emittedIds L @ ?new"
    using new(1) emittedIds_append [OF b(1)] by (simp add: c pollCycles_Cons)
  have dn: "distinct ?new"
    using b(2) new(2,3) p1 by auto
  have dj: "set ?new \<inter> set (processedTweets L) = {}"
    using b(3) new(3) p1 by auto
  have sb: "set ?new \<subseteq> set (concat (map extractedIds (c # cycles)))"
    using b(4) new(4) by (auto simp: c)
  have pp: "processedTweets (pollCycles (c # cycles) L) = processedTweets L @ ?new"
    using new(5) p1 by (simp add: c pollCycles_Cons)
  from e dn dj sb pp show ?case by blast
qed

lemma scan_fresh:
  "distinct (map statusId ls) \<Longrightarrow> set (map statusId ls) \<inter> set (processedTweets L) = {} \<Longrightarrow>
   fold (scanLink now) ls (L, nt, h) =
     (L\<lparr>processedTweets := processedTweets L @ map statusId ls,
        tweetsFound := tweetsFound L + length ls\<rparr>,
      nt @ map (discovered now) ls, h \<or> ls \<noteq> [])"
proof (induction ls arbitrary: L nt h)
  case Nil
  then show ?case by simp
next
  case (Cons l ls)
  let ?L = "L\<lparr>processedTweets := processedTweets L @ [statusId l], tweetsFound := tweetsFound L + 1\<rparr>"
  from Cons.prems have fresh: "statusId l \<notin> set (processedTweets L)" by auto
  from Cons.prems have 1: "distinct (map statusId ls)" by simp
  from Cons.prems have 2: "set (map statusId ls) \<inter> set (processedTweets ?L) = {}" by auto
  show ?case
    using fresh Cons.IH [OF 1 2, of "nt @ [discovered now l]" True]
    by simp
qed

lemma statusId_numberedLink_inj: "statusId (numberedLink m) = statusId (numberedLink n) \<Longrightarrow> m = n"
proof -
  assume "statusId (numberedLink m) = statusId (numberedLink n)"
  then have "length (replicate (Suc m) (CHR ''1'')) = length (replicate (Suc n) (CHR ''1''))"
    by (simp add: numberedLink_def sampleLink_def)
  then show "m = n" by simp
qed

lemma distinct_numbered: "distinct (map (statusId \<circ> numberedLink) [i..<j])"
  by (auto simp: distinct_map inj_on_def dest: statusId_numberedLink_inj)

lemma emittedIds_fields [simp]:
  "emittedIds (L\<lparr>processedTweets := p\<rparr>) = emittedIds L"
  "emittedIds (L\<lparr>tweetsFound := n\<rparr>) = emittedIds L"
  "emittedIds (L\<lparr>lastCheck := lc\<rparr>) = emittedIds L"
  "emittedIds (L\<lparr>totalMessages := tm\<rparr>) = emittedIds L"
  "emittedIds (saveProcessedTweets L) = emittedIds L"
  "emittedIds (trimProcessed h L) = emittedIds L"
  "emittedIds (publish e L) = emittedIds L @ map tweetId (concat (foundBatch e))"
  by (simp_all add: emittedIds_def)

lemma processTweetLinks_fresh:
  assumes "ls \<noteq> []" and "distinct (map statusId ls)"
    and "set (map statusId ls) \<inter> set (processedTweets L) = {}"
  shows "emittedIds (processTweetLinks now ls L) = emittedIds L @ map statusId ls \<and>
         processedTweets (processTweetLinks now ls L) =
           trimmed (processedTweets L @ map statusId ls) \<and>
         isListening (processTweetLinks now ls L) = isListening L \<and>
         authPresent (processTweetLinks now ls L) = authPresent L"
proof -
  have sc: "fold (scanLink now) ls (L, [], False) =
     (L\<lparr>processedTweets := processedTweets L @ map statusId ls,
        tweetsFound := tweetsFound L + length ls\<rparr>,
      [] @ map (discovered now) ls, False \<or> ls \<noteq> [])"
    using assms(2,3) by (rule scan_fresh)
  have ids: "map (tweetId \<circ> discovered now) ls = map statusId ls"
    by (simp add: discovered_def)
  show ?thesis
    using assms(1) ids by (simp add: processTweetLinks_def sc)
qed

lemma checkGroupMessages_fresh:
  assumes "isListening L" and "authPresent L" and "ls \<noteq> []"
    and "distinct (map statusId ls)"
    and "set (map statusId ls) \<inter> set (processedTweets L) = {}"
  shows "emittedIds (checkGroupMessages now (Notifications (Some ls)) L) =
           emittedIds L @ map statusId ls \<and>
         processedTweets (checkGroupMessages now (Notifications (Some ls)) L) =
           trimmed (processedTweets L @ map statusId ls) \<and>
         isListening (checkGroupMessages now (Notifications (Some ls)) L) \<and>
         authPresent (checkGroupMessages now (Notifications (Some ls)) L)"
proof -
  let ?L2 = "L\<lparr>lastCheck := Some now, totalMessages := totalMessages L + 1\<rparr>"
  have eq: "checkGroupMessages now (Notifications (Some ls)) L =
            publish (MessageCheckCompleted now (length ls)) (processTweetLinks now ls ?L2)"
    using assms(1,2,3) by (simp add: checkGroupMessages_def Let_def)
  have "set (map statusId ls) \<inter> set (processedTweets ?L2) = {}"
    using assms(5) by simp
  from processTweetLinks_fresh [OF assms(3,4) this, of now] assms(1,2)
  show ?thesis
    unfolding eq by simp
qed

lemma reemission_after_trim:
  assumes "1000 < n"
  shows "emittedIds
     (pollCycles
        [(t1, Notifications (Some (map numberedLink [0..<n]))),
         (t2, Notifications (Some [numberedLink 0]))]
        (listeningListener []))
   = map statusId (map numberedLink [0..<n]) @ [statusId (numberedLink 0)]"
proof -
  define L1 where
    "L1 = checkGroupMessages t1 (Notifications (Some (map numberedLink [0..<n])))
            (listeningListener [])"
  have ne: "map numberedLink [0..<n] \<noteq> []"
    using assms by simp
  have "emittedIds L1 = emittedIds (listeningListener []) @ map statusId (map numberedLink [0..<n]) \<and>
        processedTweets L1 =
          trimmed (processedTweets (listeningListener []) @ map statusId (map numberedLink [0..<n])) \<and>
        isListening L1 \<and> authPresent L1"
    unfolding L1_def using ne
    by (intro checkGroupMessages_fresh) (simp_all add: listeningListener_def distinct_numbered)
  then have e: "emittedIds L1 = map statusId (map numberedLink [0..<n])"
    and p: "processedTweets L1 = map statusId (map numberedLink [n - 800..<n])"
    and l: "isListening L1" "authPresent L1"
    using assms
    by (simp_all add: listeningListener_def emittedIds_def foundBatches_def trimmed_def drop_map)
  have "0 < n - 800" using assms by simp
  then have fresh: "set (map statusId [numberedLink 0]) \<inter> set (processedTweets L1) = {}"
    unfolding p by (auto dest: statusId_numberedLink_inj)
  have "emittedIds (checkGroupMessages t2 (Notifications (Some [numberedLink 0])) L1) =
          emittedIds L1 @ map statusId [numberedLink 0]"
    using checkGroupMessages_fresh [OF l _ _ fresh, of t2] by simp
  then show ?thesis
    by (simp add: pollCycles_def L1_def [symmetric] e)
qed

text \<open>
  C1, as the code has it. In one poll cycle no id is emitted twice, and no id that is in
  \<open>processedTweets\<close> when the cycle starts is emitted. Over any sequence of cycles the
  same holds as long as the set is never cut, which is certain while the ids already seen
  and the ids extracted are at most 1000 different ids in all.
\<close>

theorem dedup_within_cycle_and_without_trim:
  "(\<exists>b. emittedIds (checkGroupMessages now r L) = emittedIds L @ b \<and> distinct b \<and>
        set b \<inter> set (processedTweets L) = {}) \<and>
   (distinct (processedTweets L) \<and>
    card (set (processedTweets L) \<union> set (concat (map extractedIds cycles))) \<le> 1000 \<longrightarrow>
      (\<exists>new. emittedIds (pollCycles cycles L) = emittedIds L @ new \<and> distinct new \<and>
         set new \<inter> set (processedTweets L) = {}))"
proof -
  from checkGroupMessages_batch [of now r L] obtain b where
    "foundBatches (checkGroupMessages now r L) = foundBatches L @ (if b = [] then [] else [b])"
    "distinct (map tweetId b)" "set (map tweetId b) \<inter> set (processedTweets L) = {}"
    by blast
  then have 1: "\<exists>b. emittedIds (checkGroupMessages now r L) = emittedIds L @ b \<and> distinct b \<and>
        set b \<inter> set (processedTweets L) = {}"
    using emittedIds_append by blast
  have 2: "distinct (processedTweets L) \<and>
    card (set (processedTweets L) \<union> set (concat (map extractedIds cycles))) \<le> 1000 \<longrightarrow>
      (\<exists>new. emittedIds (pollCycles cycles L) = emittedIds L @ new \<and> distinct new \<and>
         set new \<inter> set (processedTweets L) = {})"
    using pollCycles_no_trim [of L cycles] by blast
  from 1 2 show ?thesis by blast
qed

text \<open>
  The first poll returns 1001 and 1002 (1001 twice), the second 1001, 1003 and the id 1000
  that was seen before the run: 1001, 1002 and 1003 are emitted, once each.
\<close>

theorem dedup_within_cycle_and_without_trim_witness:
  "distinct (processedTweets (listeningListener [''1000''])) \<and>
   card (set (processedTweets (listeningListener [''1000''])) \<union>
         set (concat (map extractedIds
           [(10, Notifications (Some [sampleLink ''1001'', sampleLink ''1002'', sampleLink ''1001''])),
            (20, Notifications (Some [sampleLink ''1001'', sampleLink ''1003'', sampleLink ''1000'']))])))
     \<le> 1000 \<and>
   emittedIds
     (pollCycles
        [(10, Notifications (Some [sampleLink ''1001'', sampleLink ''1002'', sampleLink ''1001''])),
         (20, Notifications (Some [sampleLink ''1001'', sampleLink ''1003'', sampleLink ''1000'']))]
        (listeningListener [''1000'']))
     = [''1001'', ''1002'', ''1003'']"
proof -
  have h1: "distinct (processedTweets (listeningListener [''1000'']))"
    by (simp add: listeningListener_def)
  have h2: "card (set (processedTweets (listeningListener [''1000''])) \<union>
         set (concat (map extractedIds
           [(10, Notifications (Some [sampleLink ''1001'', sampleLink ''1002'', sampleLink ''1001''])),
            (20, Notifications (Some [sampleLink ''1001'', sampleLink ''1003'', sampleLink ''1000'']))])))
     \<le> 1000"
    by (simp add: listeningListener_def sampleLink_def card_insert_if)
  have v: "emittedIds
     (pollCycles
        [(10, Notifications (Some [sampleLink ''1001'', sampleLink ''1002'', sampleLink ''1001''])),
         (20, Notifications (Some [sampleLink ''1001'', sampleLink ''1003'', sampleLink ''1000'']))]
        (listeningListener [''1000'']))
     = [''1001'', ''1002'', ''1003'']"
    by code_simp
  from dedup_within_cycle_and_without_trim
    [of 10 "Notifications None" "listeningListener [''1000'']"
        "[(10, Notifications (Some [sampleLink ''1001'', sampleLink ''1002'', sampleLink ''1001''])),
          (20, Notifications (Some [sampleLink ''1001'', sampleLink ''1003'', sampleLink ''1000'']))]"]
    h1 h2 v
  show ?thesis by blast
qed

text \<open>
  A first poll returns 1001 new ids. All are emitted, and the set, now over 1000, is cut to
  the last 800, which drops the first id. A second poll returns that id again, and it is
  emitted a second time.
\<close>

theorem dedup_counterexample:
  "emittedIds
     (pollCycles
        [(10, Notifications (Some (map numberedLink [0..<1001]))),
         (20, Notifications (Some [numberedLink 0]))]
        (listeningListener []))
   = map statusId (map numberedLink [0..<1001]) @ [statusId (numberedLink 0)] \<and>
   \<not> distinct
     (emittedIds
        (pollCycles
           [(10, Notifications (Some (map numberedLink [0..<1001]))),
            (20, Notifications (Some [numberedLink 0]))]
           (listeningListener [])))"
proof -
  have e: "emittedIds
     (pollCycles
        [(10, Notifications (Some (map numberedLink [0..<1001]))),
         (20, Notifications (Some [numberedLink 0]))]
        (listeningListener []))
   = map statusId (map numberedLink [0..<1001]) @ [statusId (numberedLink 0)]"
    by (rule reemission_after_trim) simp
  have "(0::nat) \<in> set [0..<1001]"
    by (simp del: upt_rec_numeral)
  then have "statusId (numberedLink 0) \<in> set (map statusId (map numberedLink [0..<1001]))"
    unfolding set_map by (intro imageI)
  then have "\<not> distinct (map statusId (map numberedLink [0..<1001]) @ [statusId (numberedLink 0)])"
    unfolding distinct_append by simp
  with e show ?thesis by simp
qed





section \<open>Properties of the aggregator\<close>

text \<open>
  C7, as the code has it. For an id that is not in the registry, \<open>restartGroup\<close> throws
  before it changes anything. \<open>removeGroup\<close> does not throw: it skips the listener, and
  then removes every config of that id from the config list, deletes the statistics entry
  of the id, recomputes \<open>totalGroups\<close> and \<open>activeGroups\<close>, and emits \<open>groupRemoved\<close>;
  the registry stays as it was.
\<close>

theorem unknown_group:
  assumes "map_of (groupListeners s) gid = None"
  shows "restartGroup now stopped started gid s = (Some (NotFound gid), s) \<and>
         removeGroup stopped gid s =
           (None,
            s\<lparr>groupConfigs := filter (\<lambda>c. groupId c \<noteq> gid) (groupConfigs s),
              groupStats := mapDelete gid (groupStats s),
              totalGroups := length (filter (\<lambda>c. groupId c \<noteq> gid) (groupConfigs s)),
              activeGroups := length (groupListeners s),
              relayed := relayed s @ [GroupRemoved gid]\<rparr>)"
  using assms by (simp add: restartGroup_def removeGroup_def Let_def relay_def)

text \<open>
  Group \<open>g2\<close> is configured but disabled, so it is not in the registry. Removing it
  returns no error and changes the config list, the totals and the events.
\<close>

theorem remove_unknown_group_counterexample:
  "map_of (groupListeners runningMulti) ''g2'' = None \<and>
   fst (removeGroup StopDone ''g2'' runningMulti) = None \<and>
   map groupId (groupConfigs runningMulti) = [''g1'', ''g2''] \<and>
   map groupId (groupConfigs (snd (removeGroup StopDone ''g2'' runningMulti))) = [''g1''] \<and>
   totalGroups runningMulti = 2 \<and>
   totalGroups (snd (removeGroup StopDone ''g2'' runningMulti)) = 1 \<and>
   relayed (snd (removeGroup StopDone ''g2'' runningMulti)) = [GroupRemoved ''g2'']"
  by code_simp

text \<open>An id that is nowhere: the restart is refused, the removal is announced.\<close>

theorem unknown_group_witness:
  "map_of (groupListeners runningMulti) ''ghost'' = None \<and>
   restartGroup 9 StopDone StartDone ''ghost'' runningMulti = (Some (NotFound ''ghost''), runningMulti) \<and>
   fst (removeGroup StopDone ''ghost'' runningMulti) = None \<and>
   relayed (snd (removeGroup StopDone ''ghost'' runningMulti)) = [GroupRemoved ''ghost'']"
proof -
  have h: "map_of (groupListeners runningMulti) ''ghost'' = None"
    by code_simp
  have r: "relayed runningMulti = []"
    by code_simp
  from unknown_group [OF h, of 9 StopDone StartDone] h r show ?thesis
    by simp
qed

end
